theory Spec2Isabelle
  imports Complex_Main
begin

section \<open>Strings, errors and the URI component coding of the host language\<close>

text \<open>
  Strings of the program are modelled as \<^typ>\<open>string\<close>: every character is one code unit
  in the range U+0000 .. U+00FF. Exceptions are values of \<open>error\<close>; \<open>Unmodelled\<close> is not
  an exception of the program, it marks an input that leaves the modelled fragment (a
  regular expression feature outside the fragment below, a decoded code point above U+00FF).
\<close>

datatype error = URIError | TypeError string | SyntaxError | Unmodelled

definition code :: "char \<Rightarrow> nat" where
  "code c = of_char c"

definition uriUnreserved :: "char \<Rightarrow> bool" where
  "uriUnreserved c =
     (let n = code c in
        (65 \<le> n \<and> n \<le> 90) \<or> (97 \<le> n \<and> n \<le> 122) \<or> (48 \<le> n \<and> n \<le> 57)
        \<or> c \<in> set ''-_.!~*'()'')"

definition hexDigit :: "nat \<Rightarrow> char" where
  "hexDigit n = ''0123456789ABCDEF'' ! (n mod 16)"

definition pct :: "nat \<Rightarrow> string" where
  "pct b = [CHR ''%'', hexDigit (b div 16), hexDigit (b mod 16)]"

text \<open>\<open>encodeURIComponent\<close>: unreserved characters stay, every other code unit is written
  as the percent-escaped octets of its UTF-8 form (one octet below U+0080, two up to U+00FF).\<close>

definition encodeChar :: "char \<Rightarrow> string" where
  "encodeChar c =
     (let n = code c in
      if uriUnreserved c then [c]
      else if n < 128 then pct n
      else pct (192 + n div 64) @ pct (128 + n mod 64))"

definition encodeURIComponent :: "string \<Rightarrow> string" where
  "encodeURIComponent s = concat (map encodeChar s)"

definition hexVal :: "char \<Rightarrow> nat option" where
  "hexVal c =
     (let n = code c in
      if 48 \<le> n \<and> n \<le> 57 then Some (n - 48)
      else if 65 \<le> n \<and> n \<le> 70 then Some (n - 55)
      else if 97 \<le> n \<and> n \<le> 102 then Some (n - 87)
      else None)"

text \<open>\<open>decodeURIComponent\<close> in two passes: the escapes \<open>%XX\<close> become octets (a \<open>%\<close> that
  is not followed by two hexadecimal digits is a \<open>URIError\<close>), then every run of octets
  has to be well-formed UTF-8 (anything else is a \<open>URIError\<close>).\<close>

datatype piece = Plain char | Octet nat

fun pctUnits :: "string \<Rightarrow> error + piece list" where
  "pctUnits [] = Inr []"
| "pctUnits (c # cs) =
     (if c = CHR ''%'' then
        (case cs of
           a # b # rest \<Rightarrow>
             (case (hexVal a, hexVal b) of
                (Some x, Some y) \<Rightarrow>
                  (case pctUnits rest of Inl e \<Rightarrow> Inl e | Inr us \<Rightarrow> Inr (Octet (16 * x + y) # us))
              | _ \<Rightarrow> Inl URIError)
         | _ \<Rightarrow> Inl URIError)
      else (case pctUnits cs of Inl e \<Rightarrow> Inl e | Inr us \<Rightarrow> Inr (Plain c # us)))"

definition isCont :: "nat \<Rightarrow> bool" where
  "isCont b = (128 \<le> b \<and> b < 192)"

definition surrogates :: "nat \<Rightarrow> nat list" where
  "surrogates cp =
     (if cp < 65536 then [cp]
      else [55296 + (cp - 65536) div 1024, 56320 + (cp - 65536) mod 1024])"

fun utf8Units :: "piece list \<Rightarrow> error + nat list" where
  "utf8Units [] = Inr []"
| "utf8Units (Plain c # us) =
     (case utf8Units us of Inl e \<Rightarrow> Inl e | Inr ns \<Rightarrow> Inr (code c # ns))"
| "utf8Units (Octet b # us) =
     (if b < 128 then
        (case utf8Units us of Inl e \<Rightarrow> Inl e | Inr ns \<Rightarrow> Inr (b # ns))
      else if 192 \<le> b \<and> b < 224 then
        (case us of
           Octet b1 # rest \<Rightarrow>
             (let cp = (b - 192) * 64 + (b1 - 128) in
              if isCont b1 \<and> 128 \<le> cp then
                (case utf8Units rest of Inl e \<Rightarrow> Inl e | Inr ns \<Rightarrow> Inr (cp # ns))
              else Inl URIError)
         | _ \<Rightarrow> Inl URIError)
      else if 224 \<le> b \<and> b < 240 then
        (case us of
           Octet b1 # Octet b2 # rest \<Rightarrow>
             (let cp = (b - 224) * 4096 + (b1 - 128) * 64 + (b2 - 128) in
              if isCont b1 \<and> isCont b2 \<and> 2048 \<le> cp \<and> \<not> (55296 \<le> cp \<and> cp < 57344) then
                (case utf8Units rest of Inl e \<Rightarrow> Inl e | Inr ns \<Rightarrow> Inr (cp # ns))
              else Inl URIError)
         | _ \<Rightarrow> Inl URIError)
      else if 240 \<le> b \<and> b < 248 then
        (case us of
           Octet b1 # Octet b2 # Octet b3 # rest \<Rightarrow>
             (let cp = (b - 240) * 262144 + (b1 - 128) * 4096 + (b2 - 128) * 64 + (b3 - 128) in
              if isCont b1 \<and> isCont b2 \<and> isCont b3 \<and> 65536 \<le> cp \<and> cp < 1114112 then
                (case utf8Units rest of Inl e \<Rightarrow> Inl e | Inr ns \<Rightarrow> Inr (surrogates cp @ ns))
              else Inl URIError)
         | _ \<Rightarrow> Inl URIError)
      else Inl URIError)"

definition decodeURIComponent :: "string \<Rightarrow> error + string" where
  "decodeURIComponent s =
     (case pctUnits s of
        Inl e \<Rightarrow> Inl e
      | Inr us \<Rightarrow>
          (case utf8Units us of
             Inl e \<Rightarrow> Inl e
           | Inr ns \<Rightarrow> if list_all (\<lambda>n. n < 256) ns then Inr (map char_of ns) else Inl Unmodelled))"


section \<open>Regular expressions of the host language\<close>

text \<open>
  The program builds regular expressions as strings and hands them to the host's \<open>RegExp\<close>.
  The fragment modelled here: literals, \<open>.\<close>, classes \<open>[...]\<close> with ranges and the escapes
  \<open>\d \w \s\<close>, the anchors \<open>^\<close> and \<open>$\<close>, groups \<open>(...)\<close>, \<open>(?:...)\<close>, lookaheads
  \<open>(?=...)\<close> and \<open>(?!...)\<close>, alternation, and the quantifiers \<open>* + ?\<close> with their lazy
  forms. Matching is the backtracking matcher of the language standard: alternatives and
  quantifiers are tried in priority order, an iteration of \<open>*\<close> or \<open>?\<close> that consumes
  nothing is rejected, and the groups inside a quantified term are reset at each iteration.
\<close>

datatype citem = CChar char | CRange char char | CDigit bool | CWord bool | CSpace bool

datatype regex =
    Eps
  | Chr char
  | Dot
  | Class bool "citem list"
  | Bol
  | Eol
  | Seq regex regex
  | Alt regex regex
  | Group nat regex
  | Look bool regex
  | Star bool regex
  | Plus bool regex
  | Opt bool regex

definition toUpper :: "char \<Rightarrow> char" where
  "toUpper c =
     (let n = code c in
      if (97 \<le> n \<and> n \<le> 122) \<or> (224 \<le> n \<and> n \<le> 254 \<and> n \<noteq> 247) then char_of (n - 32) else c)"

definition toLower :: "char \<Rightarrow> char" where
  "toLower c =
     (let n = code c in
      if (65 \<le> n \<and> n \<le> 90) \<or> (192 \<le> n \<and> n \<le> 222 \<and> n \<noteq> 215) then char_of (n + 32) else c)"

definition eqChar :: "bool \<Rightarrow> char \<Rightarrow> char \<Rightarrow> bool" where
  "eqChar ic a x = (if ic then toUpper a = toUpper x else a = x)"

definition isDigit :: "char \<Rightarrow> bool" where
  "isDigit c = (48 \<le> code c \<and> code c \<le> 57)"

definition isWord :: "char \<Rightarrow> bool" where
  "isWord c =
     (let n = code c in (65 \<le> n \<and> n \<le> 90) \<or> (97 \<le> n \<and> n \<le> 122) \<or> (48 \<le> n \<and> n \<le> 57) \<or> n = 95)"

definition isSpace :: "char \<Rightarrow> bool" where
  "isSpace c = (code c \<in> {9, 10, 11, 12, 13, 32, 160})"

fun inItem :: "citem \<Rightarrow> char \<Rightarrow> bool" where
  "inItem (CChar a) x = (a = x)"
| "inItem (CRange a b) x = (code a \<le> code x \<and> code x \<le> code b)"
| "inItem (CDigit pos) x = (isDigit x = pos)"
| "inItem (CWord pos) x = (isWord x = pos)"
| "inItem (CSpace pos) x = (isSpace x = pos)"

text \<open>With the flag \<open>i\<close> a character is in a class when one of its case variants is.\<close>

definition inClass :: "bool \<Rightarrow> citem list \<Rightarrow> char \<Rightarrow> bool" where
  "inClass ic items x =
     (\<exists>it \<in> set items. \<exists>y \<in> set (if ic then [x, toUpper x, toLower x] else [x]). inItem it y)"

fun groupsOf :: "regex \<Rightarrow> nat list" where
  "groupsOf (Seq a b) = groupsOf a @ groupsOf b"
| "groupsOf (Alt a b) = groupsOf a @ groupsOf b"
| "groupsOf (Group i r) = i # groupsOf r"
| "groupsOf (Look p r) = groupsOf r"
| "groupsOf (Star g r) = groupsOf r"
| "groupsOf (Plus g r) = groupsOf r"
| "groupsOf (Opt g r) = groupsOf r"
| "groupsOf r = []"

type_synonym captures = "string option list"

definition resetGroups :: "regex \<Rightarrow> captures \<Rightarrow> captures" where
  "resetGroups r c = fold (\<lambda>i c. c[i := None]) (groupsOf r) c"

text \<open>The continuation of a match is a stack of pending items: a term still to match, the
  end of a group opened at the remaining input \<open>s0\<close>, or the check that an iteration started
  at remaining length \<open>l\<close> has consumed input.\<close>

datatype item = R regex | Close nat string | Progress nat

fun weight :: "regex \<Rightarrow> nat" where
  "weight (Seq a b) = weight a + weight b + 1"
| "weight (Alt a b) = weight a + weight b + 1"
| "weight (Group i r) = weight r + 2"
| "weight (Look p r) = weight r + 1"
| "weight (Star g r) = weight r + 2"
| "weight (Plus g r) = 2 * weight r + 3"
| "weight (Opt g r) = weight r + 2"
| "weight r = 1"

fun pending :: "nat \<Rightarrow> item list \<Rightarrow> nat" where
  "pending l [] = 0"
| "pending l (R r # k) = weight r + pending l k"
| "pending l (Close i s0 # k) = 1 + pending l k"
| "pending l (Progress l0 # k) = (if l0 \<le> l then 1 else 1 + pending l k)"

text \<open>\<open>matchK ic n k s c\<close>: match the stack \<open>k\<close> against the remaining input \<open>s\<close> of an
  input of length \<open>n\<close>, with captures \<open>c\<close>; the result is the input left over and the
  captures of the first successful path, or \<open>None\<close>.\<close>

function (sequential) matchK ::
  "bool \<Rightarrow> nat \<Rightarrow> item list \<Rightarrow> string \<Rightarrow> captures \<Rightarrow> (string \<times> captures) option" where
  "matchK ic n [] s c = Some (s, c)"
| "matchK ic n (Close i s0 # k) s c =
     matchK ic n k s (c[i := Some (take (length s0 - length s) s0)])"
| "matchK ic n (Progress l0 # k) s c = (if length s < l0 then matchK ic n k s c else None)"
| "matchK ic n (R Eps # k) s c = matchK ic n k s c"
| "matchK ic n (R (Chr a) # k) s c =
     (case s of [] \<Rightarrow> None | x # xs \<Rightarrow> if eqChar ic a x then matchK ic n k xs c else None)"
| "matchK ic n (R Dot # k) s c =
     (case s of [] \<Rightarrow> None
      | x # xs \<Rightarrow> if x \<noteq> CHR 0x0A \<and> x \<noteq> CHR 0x0D then matchK ic n k xs c else None)"
| "matchK ic n (R (Class neg items) # k) s c =
     (case s of [] \<Rightarrow> None
      | x # xs \<Rightarrow> if inClass ic items x \<noteq> neg then matchK ic n k xs c else None)"
| "matchK ic n (R Bol # k) s c = (if length s = n then matchK ic n k s c else None)"
| "matchK ic n (R Eol # k) s c = (if s = [] then matchK ic n k s c else None)"
| "matchK ic n (R (Seq a b) # k) s c = matchK ic n (R a # R b # k) s c"
| "matchK ic n (R (Alt a b) # k) s c =
     (case matchK ic n (R a # k) s c of Some res \<Rightarrow> Some res | None \<Rightarrow> matchK ic n (R b # k) s c)"
| "matchK ic n (R (Group i r) # k) s c = matchK ic n (R r # Close i s # k) s c"
| "matchK ic n (R (Look pos r) # k) s c =
     (case matchK ic n [R r] s c of
        Some (s', c') \<Rightarrow> if pos then matchK ic n k s c' else None
      | None \<Rightarrow> if pos then None else matchK ic n k s c)"
| "matchK ic n (R (Star greedy r) # k) s c =
     (if greedy then
        (case matchK ic n (R r # Progress (length s) # R (Star greedy r) # k) s (resetGroups r c) of
           Some res \<Rightarrow> Some res
         | None \<Rightarrow> matchK ic n k s c)
      else
        (case matchK ic n k s c of
           Some res \<Rightarrow> Some res
         | None \<Rightarrow> matchK ic n (R r # Progress (length s) # R (Star greedy r) # k) s (resetGroups r c)))"
| "matchK ic n (R (Plus greedy r) # k) s c =
     matchK ic n (R r # R (Star greedy r) # k) s (resetGroups r c)"
| "matchK ic n (R (Opt greedy r) # k) s c =
     (if greedy then
        (case matchK ic n (R r # Progress (length s) # k) s (resetGroups r c) of
           Some res \<Rightarrow> Some res
         | None \<Rightarrow> matchK ic n k s c)
      else
        (case matchK ic n k s c of
           Some res \<Rightarrow> Some res
         | None \<Rightarrow> matchK ic n (R r # Progress (length s) # k) s (resetGroups r c)))"
  by pat_completeness auto

termination
  by (relation "measures [\<lambda>(ic, n, k, s, c). length s, \<lambda>(ic, n, k, s, c). pending (length s) k]")
     auto


subsection \<open>From the source text of an expression to its syntax tree\<close>

text \<open>The source is read left to right, one character at a time, with a stack of the groups
  that are still open. Each frame holds the kind of its group, the alternatives finished so
  far and the terms of the current alternative (both latest first).\<close>

datatype gkind = GTop | GCap nat | GNon | GLook bool

datatype frame = Frame gkind "regex list" "regex list"

datatype pmode = MNorm | MQuant | MEsc | MOpen | MOpenQ | MClassStart | MClass | MClassEsc

record pstate =
  frames :: "frame list"
  ngroups :: nat
  mode :: pmode
  cneg :: bool
  citems :: "citem list"
  cdash :: bool

fun seqOf :: "regex list \<Rightarrow> regex" where
  "seqOf [] = Eps"
| "seqOf [r] = r"
| "seqOf (r # rs) = Seq r (seqOf rs)"

fun altOf :: "regex list \<Rightarrow> regex" where
  "altOf [] = Eps"
| "altOf [r] = r"
| "altOf (r # rs) = Alt r (altOf rs)"

definition frameTree :: "regex list \<Rightarrow> regex list \<Rightarrow> regex" where
  "frameTree alts cur = altOf (rev (seqOf (rev cur) # alts))"

definition addTerm :: "regex \<Rightarrow> pstate \<Rightarrow> error + pstate" where
  "addTerm r st =
     (case frames st of
        [] \<Rightarrow> Inl SyntaxError
      | Frame kind alts cur # fs \<Rightarrow> Inr (st\<lparr>frames := Frame kind alts (r # cur) # fs, mode := MNorm\<rparr>))"

definition quantify :: "(regex \<Rightarrow> regex) \<Rightarrow> pstate \<Rightarrow> error + pstate" where
  "quantify q st =
     (case frames st of
        Frame kind alts (t # cur) # fs \<Rightarrow>
          (if mode st = MQuant \<or> t = Bol \<or> t = Eol then Inl SyntaxError
           else Inr (st\<lparr>frames := Frame kind alts (q t # cur) # fs, mode := MQuant\<rparr>))
      | _ \<Rightarrow> Inl SyntaxError)"

fun lazyOf :: "regex \<Rightarrow> regex" where
  "lazyOf (Star g r) = Star False r"
| "lazyOf (Plus g r) = Plus False r"
| "lazyOf (Opt g r) = Opt False r"
| "lazyOf r = r"

definition makeLazy :: "pstate \<Rightarrow> error + pstate" where
  "makeLazy st =
     (case frames st of
        Frame kind alts (t # cur) # fs \<Rightarrow>
          Inr (st\<lparr>frames := Frame kind alts (lazyOf t # cur) # fs, mode := MNorm\<rparr>)
      | _ \<Rightarrow> Inl SyntaxError)"

definition openGroup :: "gkind \<Rightarrow> pstate \<Rightarrow> pstate" where
  "openGroup kind st = st\<lparr>frames := Frame kind [] [] # frames st, mode := MNorm\<rparr>"

definition closeGroup :: "pstate \<Rightarrow> error + pstate" where
  "closeGroup st =
     (case frames st of
        Frame kind alts cur # Frame kind' alts' cur' # fs \<Rightarrow>
          (let body = frameTree alts cur;
               node = (case kind of GCap i \<Rightarrow> Group i body | GLook pos \<Rightarrow> Look pos body | _ \<Rightarrow> body)
           in Inr (st\<lparr>frames := Frame kind' alts' (node # cur') # fs, mode := MNorm\<rparr>))
      | _ \<Rightarrow> Inl SyntaxError)"

definition newAlt :: "pstate \<Rightarrow> error + pstate" where
  "newAlt st =
     (case frames st of
        [] \<Rightarrow> Inl SyntaxError
      | Frame kind alts cur # fs \<Rightarrow>
          Inr (st\<lparr>frames := Frame kind (seqOf (rev cur) # alts) [] # fs, mode := MNorm\<rparr>))"

definition normStep :: "pstate \<Rightarrow> char \<Rightarrow> error + pstate" where
  "normStep st c =
     (if c = CHR 0x5C then Inr (st\<lparr>mode := MEsc\<rparr>)
      else if c = CHR ''('' then Inr (st\<lparr>mode := MOpen\<rparr>)
      else if c = CHR '')'' then closeGroup st
      else if c = CHR ''|'' then newAlt st
      else if c = CHR ''['' then Inr (st\<lparr>mode := MClassStart, cneg := False, citems := [], cdash := False\<rparr>)
      else if c = CHR ''*'' then quantify (Star True) st
      else if c = CHR ''+'' then quantify (Plus True) st
      else if c = CHR ''?'' then (if mode st = MQuant then makeLazy st else quantify (Opt True) st)
      else if c = CHR ''.'' then addTerm Dot st
      else if c = CHR ''^'' then addTerm Bol st
      else if c = CHR ''$'' then addTerm Eol st
      else if c = CHR ''{'' then Inl Unmodelled
      else addTerm (Chr c) st)"

definition escStep :: "pstate \<Rightarrow> char \<Rightarrow> error + pstate" where
  "escStep st c =
     (if c = CHR ''d'' then addTerm (Class False [CDigit True]) st
      else if c = CHR ''D'' then addTerm (Class False [CDigit False]) st
      else if c = CHR ''w'' then addTerm (Class False [CWord True]) st
      else if c = CHR ''W'' then addTerm (Class False [CWord False]) st
      else if c = CHR ''s'' then addTerm (Class False [CSpace True]) st
      else if c = CHR ''S'' then addTerm (Class False [CSpace False]) st
      else if c = CHR ''n'' then addTerm (Chr (CHR 0x0A)) st
      else if c = CHR ''r'' then addTerm (Chr (CHR 0x0D)) st
      else if c = CHR ''t'' then addTerm (Chr (CHR 0x09)) st
      else if c = CHR ''f'' then addTerm (Chr (CHR 0x0C)) st
      else if c = CHR ''v'' then addTerm (Chr (CHR 0x0B)) st
      else if c \<in> set ''bBxuck0123456789'' then Inl Unmodelled
      else addTerm (Chr c) st)"

definition addClassItem :: "citem \<Rightarrow> pstate \<Rightarrow> error + pstate" where
  "addClassItem it st =
     Inr (st\<lparr>citems := it # (if cdash st then CChar (CHR ''-'') # citems st else citems st),
             cdash := False, mode := MClass\<rparr>)"

definition addClassChar :: "char \<Rightarrow> pstate \<Rightarrow> error + pstate" where
  "addClassChar c st =
     (if cdash st then
        (case citems st of
           CChar a # rest \<Rightarrow>
             (if code a \<le> code c then Inr (st\<lparr>citems := CRange a c # rest, cdash := False, mode := MClass\<rparr>)
              else Inl SyntaxError)
         | _ \<Rightarrow> Inl SyntaxError)
      else Inr (st\<lparr>citems := CChar c # citems st, mode := MClass\<rparr>))"

definition classStep :: "pstate \<Rightarrow> char \<Rightarrow> error + pstate" where
  "classStep st c =
     (if c = CHR '']'' then
        addTerm (Class (cneg st) (rev (if cdash st then CChar (CHR ''-'') # citems st else citems st))) st
      else if c = CHR 0x5C then Inr (st\<lparr>mode := MClassEsc\<rparr>)
      else if c = CHR ''-'' \<and> \<not> cdash st \<and> (case citems st of CChar a # rest \<Rightarrow> True | _ \<Rightarrow> False)
        then Inr (st\<lparr>cdash := True, mode := MClass\<rparr>)
      else addClassChar c st)"

definition classEscStep :: "pstate \<Rightarrow> char \<Rightarrow> error + pstate" where
  "classEscStep st c =
     (if c = CHR ''d'' then addClassItem (CDigit True) st
      else if c = CHR ''D'' then addClassItem (CDigit False) st
      else if c = CHR ''w'' then addClassItem (CWord True) st
      else if c = CHR ''W'' then addClassItem (CWord False) st
      else if c = CHR ''s'' then addClassItem (CSpace True) st
      else if c = CHR ''S'' then addClassItem (CSpace False) st
      else if c = CHR ''n'' then addClassChar (CHR 0x0A) st
      else if c = CHR ''r'' then addClassChar (CHR 0x0D) st
      else if c = CHR ''t'' then addClassChar (CHR 0x09) st
      else if c = CHR ''f'' then addClassChar (CHR 0x0C) st
      else if c = CHR ''v'' then addClassChar (CHR 0x0B) st
      else if c = CHR ''b'' then addClassChar (CHR 0x08) st
      else if c \<in> set ''xuc0123456789'' then Inl Unmodelled
      else addClassChar c st)"

definition step :: "pstate \<Rightarrow> char \<Rightarrow> error + pstate" where
  "step st c =
     (case mode st of
        MNorm \<Rightarrow> normStep st c
      | MQuant \<Rightarrow> normStep st c
      | MEsc \<Rightarrow> escStep st c
      | MOpen \<Rightarrow>
          (if c = CHR ''?'' then Inr (st\<lparr>mode := MOpenQ\<rparr>)
           else normStep (openGroup (GCap (ngroups st)) (st\<lparr>ngroups := Suc (ngroups st)\<rparr>)) c)
      | MOpenQ \<Rightarrow>
          (if c = CHR '':'' then Inr (openGroup GNon st)
           else if c = CHR ''='' then Inr (openGroup (GLook True) st)
           else if c = CHR ''!'' then Inr (openGroup (GLook False) st)
           else Inl Unmodelled)
      | MClassStart \<Rightarrow>
          (if c = CHR ''^'' then Inr (st\<lparr>cneg := True, mode := MClass\<rparr>) else classStep st c)
      | MClass \<Rightarrow> classStep st c
      | MClassEsc \<Rightarrow> classEscStep st c)"

fun steps :: "pstate \<Rightarrow> string \<Rightarrow> error + pstate" where
  "steps st [] = Inr st"
| "steps st (c # cs) = (case step st c of Inl e \<Rightarrow> Inl e | Inr st' \<Rightarrow> steps st' cs)"

definition initial :: pstate where
  "initial = \<lparr>frames = [Frame GTop [] []], ngroups = 0, mode = MNorm, cneg = False, citems = [], cdash = False\<rparr>"

definition parseRegex :: "string \<Rightarrow> error + regex \<times> nat" where
  "parseRegex src =
     (case steps initial src of
        Inl e \<Rightarrow> Inl e
      | Inr st \<Rightarrow>
          (case frames st of
             [Frame GTop alts cur] \<Rightarrow>
               (if mode st = MNorm \<or> mode st = MQuant then Inr (frameTree alts cur, ngroups st)
                else Inl SyntaxError)
           | _ \<Rightarrow> Inl SyntaxError))"

subsection \<open>The \<open>RegExp\<close> object: \<open>new RegExp\<close>, \<open>exec\<close>, \<open>test\<close>\<close>

record regexp =
  source :: string
  ignoreCase :: bool
  tree :: regex
  groups :: nat

definition newRegExp :: "string \<Rightarrow> bool \<Rightarrow> error + regexp" where
  "newRegExp src ic =
     (case parseRegex src of
        Inl e \<Rightarrow> Inl e
      | Inr (r, g) \<Rightarrow> Inr \<lparr>source = src, ignoreCase = ic, tree = r, groups = g\<rparr>)"

text \<open>The result of \<open>exec\<close>: the index of the match and the array of entries, where entry 0 is the
  matched text and entry \<open>i\<close> is the capture of group \<open>i\<close> (\<open>None\<close> is \<open>undefined\<close>).\<close>

record matched =
  index :: nat
  entries :: "string option list"

fun search :: "regexp \<Rightarrow> nat \<Rightarrow> string \<Rightarrow> matched option" where
  "search re n s =
     (case matchK (ignoreCase re) n [R (tree re)] s (replicate (groups re) None) of
        Some (rest, c) \<Rightarrow> Some \<lparr>index = n - length s, entries = Some (take (length s - length rest) s) # c\<rparr>
      | None \<Rightarrow> (case s of [] \<Rightarrow> None | x # xs \<Rightarrow> search re n xs))"

declare search.simps [simp del]

definition execFrom :: "regexp \<Rightarrow> string \<Rightarrow> nat \<Rightarrow> matched option" where
  "execFrom re str lastIndex =
     (if lastIndex > length str then None else search re (length str) (drop lastIndex str))"

definition exec :: "regexp \<Rightarrow> string \<Rightarrow> matched option" where
  "exec re str = execFrom re str 0"

definition test :: "regexp \<Rightarrow> string \<Rightarrow> bool" where
  "test re str = (exec re str \<noteq> None)"


text \<open>Reading entry \<open>i\<close> of a match; beyond the array, as for an unmatched group, the
  value is \<open>undefined\<close>.\<close>

definition entry :: "matched \<Rightarrow> nat \<Rightarrow> string option" where
  "entry res i = (if i < length (entries res) then entries res ! i else None)"

definition whole :: "matched \<Rightarrow> string" where
  "whole res = (case entry res 0 of Some w \<Rightarrow> w | None \<Rightarrow> [])"

subsection \<open>The matcher never gives back input\<close>

lemma matchK_Chr_Some:
  assumes "matchK ic n (R (Chr a) # k) s c = Some res"
  obtains y ys where "s = y # ys" "eqChar ic a y" "matchK ic n k ys c = Some res"
  using assms by (cases s) (simp_all split: if_splits)

lemma matchK_Dot_Some:
  assumes "matchK ic n (R Dot # k) s c = Some res"
  obtains y ys where "s = y # ys" "y \<noteq> CHR 0x0A \<and> y \<noteq> CHR 0x0D" "matchK ic n k ys c = Some res"
  using assms by (cases s) (simp_all split: if_splits)

lemma matchK_Class_Some:
  assumes "matchK ic n (R (Class neg items) # k) s c = Some res"
  obtains y ys where "s = y # ys" "inClass ic items y \<noteq> neg" "matchK ic n k ys c = Some res"
  using assms by (cases s) (simp_all split: if_splits)

lemma matchK_Look_Some:
  assumes "matchK ic n (R (Look pos r) # k) s c = Some res"
  obtains (neg) "matchK ic n [R r] s c = None" "\<not> pos" "matchK ic n k s c = Some res"
    | (pos) x y where "matchK ic n [R r] s c = Some (x, y)" "pos" "matchK ic n k s y = Some res"
  using assms by (cases "matchK ic n [R r] s c"; cases pos) auto

lemma matchK_Alt_Some:
  assumes "matchK ic n (R (Alt a b) # k) s c = Some res"
  obtains (left) "matchK ic n (R a # k) s c = Some res"
    | (right) "matchK ic n (R a # k) s c = None" "matchK ic n (R b # k) s c = Some res"
  using assms by (cases "matchK ic n (R a # k) s c") auto

lemma matchK_Star_Some:
  assumes "matchK ic n (R (Star g r) # k) s c = Some res"
  obtains (iter1) "g" "matchK ic n (R r # Progress (length s) # R (Star g r) # k) s (resetGroups r c) = Some res"
    | (skip1) "g" "matchK ic n (R r # Progress (length s) # R (Star g r) # k) s (resetGroups r c) = None"
        "matchK ic n k s c = Some res"
    | (skip2) "\<not> g" "matchK ic n k s c = Some res"
    | (iter2) "\<not> g" "matchK ic n k s c = None"
        "matchK ic n (R r # Progress (length s) # R (Star g r) # k) s (resetGroups r c) = Some res"
  using assms
  by (cases g; cases "matchK ic n (R r # Progress (length s) # R (Star g r) # k) s (resetGroups r c)";
      cases "matchK ic n k s c") auto

lemma matchK_Opt_Some:
  assumes "matchK ic n (R (Opt g r) # k) s c = Some res"
  obtains (iter1) "g" "matchK ic n (R r # Progress (length s) # k) s (resetGroups r c) = Some res"
    | (skip1) "g" "matchK ic n (R r # Progress (length s) # k) s (resetGroups r c) = None"
        "matchK ic n k s c = Some res"
    | (skip2) "\<not> g" "matchK ic n k s c = Some res"
    | (iter2) "\<not> g" "matchK ic n k s c = None"
        "matchK ic n (R r # Progress (length s) # k) s (resetGroups r c) = Some res"
  using assms
  by (cases g; cases "matchK ic n (R r # Progress (length s) # k) s (resetGroups r c)";
      cases "matchK ic n k s c") auto

lemma matchK_mono:
  "matchK ic n k s c = Some (rest, c') \<Longrightarrow> length rest \<le> length s"
proof (induction ic n k s c arbitrary: rest c' rule: matchK.induct)
  case (1 ic n s c)
  from 1 show ?case by simp
next
  case (2 ic n i s0 k s c)
  from 2(2) have "matchK ic n k s (c[i := Some (take (length s0 - length s) s0)]) = Some (rest, c')"
    by simp
  then show ?case by (rule 2(1))
next
  case (3 ic n l0 k s c)
  from 3(2) have "length s < l0" and "matchK ic n k s c = Some (rest, c')"
    by (simp_all split: if_splits)
  then show ?case using 3(1) by blast
next
  case (4 ic n k s c)
  from 4(2) have "matchK ic n k s c = Some (rest, c')" by simp
  then show ?case by (rule 4(1))
next
  case (5 ic n a k s c)
  from 5(2) obtain y ys where s: "s = y # ys" "eqChar ic a y" "matchK ic n k ys c = Some (rest, c')"
    by (rule matchK_Chr_Some)
  from 5(1)[OF s] s(1) show ?case by simp
next
  case (6 ic n k s c)
  from 6(2) obtain y ys where s: "s = y # ys" "y \<noteq> CHR 0x0A \<and> y \<noteq> CHR 0x0D"
      "matchK ic n k ys c = Some (rest, c')"
    by (rule matchK_Dot_Some)
  from 6(1)[OF s] s(1) show ?case by simp
next
  case (7 ic n neg items k s c)
  from 7(2) obtain y ys where s: "s = y # ys" "inClass ic items y \<noteq> neg"
      "matchK ic n k ys c = Some (rest, c')"
    by (rule matchK_Class_Some)
  from 7(1)[OF s] s(1) show ?case by simp
next
  case (8 ic n k s c)
  from 8(2) have "length s = n" and "matchK ic n k s c = Some (rest, c')"
    by (simp_all split: if_splits)
  then show ?case using 8(1) by blast
next
  case (9 ic n k s c)
  from 9(2) have "s = []" and "matchK ic n k s c = Some (rest, c')"
    by (simp_all split: if_splits)
  then show ?case using 9(1) by blast
next
  case (10 ic n a b k s c)
  from 10(2) have "matchK ic n (R a # R b # k) s c = Some (rest, c')" by simp
  then show ?case by (rule 10(1))
next
  case (11 ic n a b k s c)
  from 11(3) show ?case
  proof (cases rule: matchK_Alt_Some)
    case left
    then show ?thesis by (rule 11(1))
  next
    case right
    then show ?thesis by (rule 11(2))
  qed
next
  case (12 ic n i r k s c)
  from 12(2) have "matchK ic n (R r # Close i s # k) s c = Some (rest, c')" by simp
  then show ?case by (rule 12(1))
next
  case (13 ic n pos r k s c)
  from 13(4) show ?case
  proof (cases rule: matchK_Look_Some)
    case neg
    then show ?thesis by (rule 13(2))
  next
    case (pos x y)
    from 13(3)[OF pos(1) refl pos(2) pos(3)] show ?thesis .
  qed
next
  case (14 ic n greedy r k s c)
  from 14(5) show ?case
  proof (cases rule: matchK_Star_Some)
    case iter1
    then show ?thesis by (rule 14(1))
  next
    case skip1
    then show ?thesis by (rule 14(2))
  next
    case skip2
    then show ?thesis by (rule 14(3))
  next
    case iter2
    then show ?thesis by (rule 14(4))
  qed
next
  case (15 ic n greedy r k s c)
  from 15(2) have "matchK ic n (R r # R (Star greedy r) # k) s (resetGroups r c) = Some (rest, c')"
    by simp
  then show ?case by (rule 15(1))
next
  case (16 ic n greedy r k s c)
  from 16(5) show ?case
  proof (cases rule: matchK_Opt_Some)
    case iter1
    then show ?thesis by (rule 16(1))
  next
    case skip1
    then show ?thesis by (rule 16(2))
  next
    case skip2
    then show ?thesis by (rule 16(3))
  next
    case iter2
    then show ?thesis by (rule 16(4))
  qed
qed

text \<open>A successful match of a stack \<open>k1 @ k2\<close> runs \<open>k2\<close> successfully from some later
  position.\<close>

lemma matchK_cont:
  "matchK ic n k s c = Some res \<Longrightarrow> k = k1 @ k2 \<Longrightarrow>
     \<exists>s' c'. length s' \<le> length s \<and> matchK ic n k2 s' c' = Some res"
proof (induction ic n k s c arbitrary: k1 rule: matchK.induct)
  case (1 ic n s c)
  then have "k2 = []" by simp
  with 1(1) show ?case by blast
next
  case (2 ic n i s0 k s c)
  show ?case
  proof (cases k1)
    case Nil
    with 2(2,3) show ?thesis by auto
  next
    case (Cons x k1')
    with 2(3) have k: "k = k1' @ k2" by simp
    from 2(2) have "matchK ic n k s (c[i := Some (take (length s0 - length s) s0)]) = Some res"
      by simp
    from 2(1)[OF this k] show ?thesis .
  qed
next
  case (3 ic n l0 k s c)
  show ?case
  proof (cases k1)
    case Nil
    with 3(2,3) show ?thesis by auto
  next
    case (Cons x k1')
    with 3(3) have k: "k = k1' @ k2" by simp
    from 3(2) have "length s < l0" and "matchK ic n k s c = Some res"
      by (simp_all split: if_splits)
    from 3(1)[OF this k] show ?thesis .
  qed
next
  case (4 ic n k s c)
  show ?case
  proof (cases k1)
    case Nil
    with 4(2,3) show ?thesis by auto
  next
    case (Cons x k1')
    with 4(3) have k: "k = k1' @ k2" by simp
    from 4(2) have "matchK ic n k s c = Some res" by simp
    from 4(1)[OF this k] show ?thesis .
  qed
next
  case (5 ic n a k s c)
  show ?case
  proof (cases k1)
    case Nil
    with 5(2,3) show ?thesis by auto
  next
    case (Cons x k1')
    with 5(3) have k: "k = k1' @ k2" by simp
    from 5(2) obtain y ys where s: "s = y # ys" "eqChar ic a y" "matchK ic n k ys c = Some res"
      by (rule matchK_Chr_Some)
    from 5(1)[OF s k] obtain s' c' where "length s' \<le> length ys" "matchK ic n k2 s' c' = Some res"
      by blast
    with s(1) have "length s' \<le> length s \<and> matchK ic n k2 s' c' = Some res" by simp
    then show ?thesis by blast
  qed
next
  case (6 ic n k s c)
  show ?case
  proof (cases k1)
    case Nil
    with 6(2,3) show ?thesis by auto
  next
    case (Cons x k1')
    with 6(3) have k: "k = k1' @ k2" by simp
    from 6(2) obtain y ys where s: "s = y # ys" "y \<noteq> CHR 0x0A \<and> y \<noteq> CHR 0x0D"
        "matchK ic n k ys c = Some res"
      by (rule matchK_Dot_Some)
    from 6(1)[OF s k] obtain s' c' where "length s' \<le> length ys" "matchK ic n k2 s' c' = Some res"
      by blast
    with s(1) have "length s' \<le> length s \<and> matchK ic n k2 s' c' = Some res" by simp
    then show ?thesis by blast
  qed
next
  case (7 ic n neg items k s c)
  show ?case
  proof (cases k1)
    case Nil
    with 7(2,3) show ?thesis by auto
  next
    case (Cons x k1')
    with 7(3) have k: "k = k1' @ k2" by simp
    from 7(2) obtain y ys where s: "s = y # ys" "inClass ic items y \<noteq> neg"
        "matchK ic n k ys c = Some res"
      by (rule matchK_Class_Some)
    from 7(1)[OF s k] obtain s' c' where "length s' \<le> length ys" "matchK ic n k2 s' c' = Some res"
      by blast
    with s(1) have "length s' \<le> length s \<and> matchK ic n k2 s' c' = Some res" by simp
    then show ?thesis by blast
  qed
next
  case (8 ic n k s c)
  show ?case
  proof (cases k1)
    case Nil
    with 8(2,3) show ?thesis by auto
  next
    case (Cons x k1')
    with 8(3) have k: "k = k1' @ k2" by simp
    from 8(2) have "length s = n" and "matchK ic n k s c = Some res"
      by (simp_all split: if_splits)
    from 8(1)[OF this k] show ?thesis .
  qed
next
  case (9 ic n k s c)
  show ?case
  proof (cases k1)
    case Nil
    with 9(2,3) show ?thesis by auto
  next
    case (Cons x k1')
    with 9(3) have k: "k = k1' @ k2" by simp
    from 9(2) have "s = []" and "matchK ic n k s c = Some res"
      by (simp_all split: if_splits)
    from 9(1)[OF this k] show ?thesis .
  qed
next
  case (10 ic n a b k s c)
  show ?case
  proof (cases k1)
    case Nil
    with 10(2,3) show ?thesis by auto
  next
    case (Cons x k1')
    with 10(3) have k: "R a # R b # k = (R a # R b # k1') @ k2" by simp
    from 10(2) have "matchK ic n (R a # R b # k) s c = Some res" by simp
    from 10(1)[OF this k] show ?thesis .
  qed
next
  case (11 ic n a b k s c)
  show ?case
  proof (cases k1)
    case Nil
    with 11(3,4) show ?thesis by auto
  next
    case (Cons x k1')
    with 11(4) have ka: "R a # k = (R a # k1') @ k2" and kb: "R b # k = (R b # k1') @ k2"
      by simp_all
    from 11(3) show ?thesis
    proof (cases rule: matchK_Alt_Some)
      case left
      from 11(1)[OF this ka] show ?thesis .
    next
      case right
      from 11(2)[OF this kb] show ?thesis .
    qed
  qed
next
  case (12 ic n i r k s c)
  show ?case
  proof (cases k1)
    case Nil
    with 12(2,3) show ?thesis by auto
  next
    case (Cons x k1')
    with 12(3) have k: "R r # Close i s # k = (R r # Close i s # k1') @ k2" by simp
    from 12(2) have "matchK ic n (R r # Close i s # k) s c = Some res" by simp
    from 12(1)[OF this k] show ?thesis .
  qed
next
  case (13 ic n pos r k s c)
  show ?case
  proof (cases k1)
    case Nil
    with 13(4,5) show ?thesis by auto
  next
    case (Cons x k1')
    with 13(5) have k: "k = k1' @ k2" by simp
    from 13(4) show ?thesis
    proof (cases rule: matchK_Look_Some)
      case neg
      from 13(2)[OF neg k] show ?thesis .
    next
      case (pos x y)
      from 13(3)[OF pos(1) refl pos(2) pos(3) k] show ?thesis .
    qed
  qed
next
  case (14 ic n greedy r k s c)
  show ?case
  proof (cases k1)
    case Nil
    with 14(5,6) show ?thesis by auto
  next
    case (Cons x k1')
    with 14(6) have k: "k = k1' @ k2"
      and ki: "R r # Progress (length s) # R (Star greedy r) # k
               = (R r # Progress (length s) # R (Star greedy r) # k1') @ k2"
      by simp_all
    from 14(5) show ?thesis
    proof (cases rule: matchK_Star_Some)
      case iter1
      from 14(1)[OF iter1 ki] show ?thesis .
    next
      case skip1
      from 14(2)[OF skip1 k] show ?thesis .
    next
      case skip2
      from 14(3)[OF skip2 k] show ?thesis .
    next
      case iter2
      from 14(4)[OF iter2 ki] show ?thesis .
    qed
  qed
next
  case (15 ic n greedy r k s c)
  show ?case
  proof (cases k1)
    case Nil
    with 15(2,3) show ?thesis by auto
  next
    case (Cons x k1')
    with 15(3) have k: "R r # R (Star greedy r) # k = (R r # R (Star greedy r) # k1') @ k2" by simp
    from 15(2) have "matchK ic n (R r # R (Star greedy r) # k) s (resetGroups r c) = Some res"
      by simp
    from 15(1)[OF this k] show ?thesis .
  qed
next
  case (16 ic n greedy r k s c)
  show ?case
  proof (cases k1)
    case Nil
    with 16(5,6) show ?thesis by auto
  next
    case (Cons x k1')
    with 16(6) have k: "k = k1' @ k2"
      and ki: "R r # Progress (length s) # k = (R r # Progress (length s) # k1') @ k2"
      by simp_all
    from 16(5) show ?thesis
    proof (cases rule: matchK_Opt_Some)
      case iter1
      from 16(1)[OF iter1 ki] show ?thesis .
    next
      case skip1
      from 16(2)[OF skip1 k] show ?thesis .
    next
      case skip2
      from 16(3)[OF skip2 k] show ?thesis .
    next
      case iter2
      from 16(4)[OF iter2 ki] show ?thesis .
    qed
  qed
qed

text \<open>Terms that cannot match the empty string.\<close>

fun consuming :: "regex \<Rightarrow> bool" where
  "consuming (Chr a) = True"
| "consuming Dot = True"
| "consuming (Class neg items) = True"
| "consuming (Seq a b) = (consuming a \<or> consuming b)"
| "consuming (Alt a b) = (consuming a \<and> consuming b)"
| "consuming (Group i r) = consuming r"
| "consuming (Plus g r) = consuming r"
| "consuming r = False"

lemma matchK_consuming:
  "consuming r \<Longrightarrow> matchK ic n (R r # k) s c = Some (rest, c') \<Longrightarrow> length rest < length s"
proof (induction r arbitrary: k s c)
  case (Chr a)
  from Chr(2) obtain y ys where s: "s = y # ys" "matchK ic n k ys c = Some (rest, c')"
    by (rule matchK_Chr_Some)
  from matchK_mono[OF s(2)] s(1) show ?case by simp
next
  case Dot
  from Dot(2) obtain y ys where s: "s = y # ys" "matchK ic n k ys c = Some (rest, c')"
    by (rule matchK_Dot_Some)
  from matchK_mono[OF s(2)] s(1) show ?case by simp
next
  case (Class neg items)
  from Class(2) obtain y ys where s: "s = y # ys" "matchK ic n k ys c = Some (rest, c')"
    by (rule matchK_Class_Some)
  from matchK_mono[OF s(2)] s(1) show ?case by simp
next
  case (Seq a b)
  from Seq.prems(2) have m: "matchK ic n (R a # R b # k) s c = Some (rest, c')" by simp
  from Seq.prems(1) have "consuming a \<or> consuming b" by simp
  then show ?case
  proof
    assume "consuming a"
    from Seq.IH(1)[OF this m] show ?thesis .
  next
    assume cb: "consuming b"
    from matchK_cont[OF m, of "[R a]" "R b # k"]
    obtain s' c'' where s': "length s' \<le> length s" "matchK ic n (R b # k) s' c'' = Some (rest, c')"
      by auto
    from Seq.IH(2)[OF cb s'(2)] s'(1) show ?thesis by simp
  qed
next
  case (Alt a b)
  from Alt.prems(1) have ca: "consuming a" and cb: "consuming b" by simp_all
  from Alt.prems(2) show ?case
  proof (cases rule: matchK_Alt_Some)
    case left
    from Alt.IH(1)[OF ca left] show ?thesis .
  next
    case right
    from Alt.IH(2)[OF cb right(2)] show ?thesis .
  qed
next
  case (Group i r)
  from Group.prems(2) have "matchK ic n (R r # Close i s # k) s c = Some (rest, c')" by simp
  with Group.IH Group.prems(1) show ?case by simp
next
  case (Plus g r)
  from Plus.prems(2) have "matchK ic n (R r # R (Star g r) # k) s (resetGroups r c) = Some (rest, c')"
    by simp
  with Plus.IH Plus.prems(1) show ?case by simp
qed simp_all

lemma search_bounds:
  "search re n s = Some res \<Longrightarrow> length s \<le> n \<Longrightarrow>
     n - length s \<le> index res \<and> index res + length (whole res) \<le> n
     \<and> (consuming (tree re) \<longrightarrow> 0 < length (whole res))"
proof (induction s)
  case Nil
  from Nil(1) obtain rest c where
    mk: "matchK (ignoreCase re) n [R (tree re)] [] (replicate (groups re) None) = Some (rest, c)"
    and res: "res = \<lparr>index = n, entries = Some [] # c\<rparr>"
    by (cases "matchK (ignoreCase re) n [R (tree re)] [] (replicate (groups re) None)")
       (auto simp: search.simps[of re n "[]"])
  from matchK_consuming[OF _ mk] have "\<not> consuming (tree re)" by auto
  with res show ?case by (simp add: whole_def entry_def)
next
  case (Cons x xs)
  show ?case
  proof (cases "matchK (ignoreCase re) n [R (tree re)] (x # xs) (replicate (groups re) None)")
    case None
    with Cons.prems(1) have "search re n xs = Some res"
      by (simp add: search.simps[of re n "x # xs"])
    from Cons.IH[OF this] Cons.prems(2)
    have "n - length xs \<le> index res" "index res + length (whole res) \<le> n"
      "consuming (tree re) \<longrightarrow> 0 < length (whole res)"
      by simp_all
    moreover have "n - length (x # xs) \<le> n - length xs" by simp
    ultimately show ?thesis by linarith
  next
    case (Some a)
    obtain rest c where a: "a = (rest, c)" by (cases a)
    with Some Cons.prems(1)
    have res: "res = \<lparr>index = n - length (x # xs), entries = Some (take (length (x # xs) - length rest) (x # xs)) # c\<rparr>"
      by (simp add: search.simps[of re n "x # xs"])
    from Some a have mk: "matchK (ignoreCase re) n [R (tree re)] (x # xs) (replicate (groups re) None) = Some (rest, c)"
      by simp
    from matchK_mono[OF mk] have le: "length rest \<le> length (x # xs)" .
    have lt: "consuming (tree re) \<longrightarrow> length rest < length (x # xs)"
      using matchK_consuming[OF _ mk] by blast
    have w: "whole res = take (length (x # xs) - length rest) (x # xs)"
      using res by (simp add: whole_def entry_def)
    have i: "index res = n - length (x # xs)" using res by simp
    from le have lw: "length (whole res) = length (x # xs) - length rest"
      unfolding w by simp
    from lt le Cons.prems(2) show ?thesis unfolding i lw by auto
  qed
qed

lemma execFrom_bounds:
  assumes "execFrom re str lastIndex = Some res"
  shows "lastIndex \<le> index res" and "index res + length (whole res) \<le> length str"
    and "consuming (tree re) \<Longrightarrow> lastIndex < index res + length (whole res)"
proof -
  from assms have le: "lastIndex \<le> length str"
    and s: "search re (length str) (drop lastIndex str) = Some res"
    by (simp_all add: execFrom_def split: if_splits)
  from search_bounds[OF s] le
  have b: "length str - length (drop lastIndex str) \<le> index res"
    "index res + length (whole res) \<le> length str"
    "consuming (tree re) \<longrightarrow> 0 < length (whole res)"
    by simp_all
  from b(1) le show "lastIndex \<le> index res" by simp
  from b(2) show "index res + length (whole res) \<le> length str" .
  assume "consuming (tree re)"
  with b(3) have "0 < length (whole res)" by blast
  with \<open>lastIndex \<le> index res\<close> show "lastIndex < index res + length (whole res)" by linarith
qed


section \<open>The pattern compiler (path-to-regex)\<close>

definition bs :: char where
  "bs = CHR 0x5C"

text \<open>\<open>escapeString\<close> and \<open>escapeGroup\<close> put a backslash before every character of a fixed
  set (a global replace of a one-character class by \<open>\\$1\<close>).\<close>

definition escapeString :: "string \<Rightarrow> string" where
  "escapeString str = concat (map (\<lambda>c. if c \<in> set ''.+*?=^!:${}()[]|/'' then [bs, c] else [c]) str)"

definition escapeGroup :: "string \<Rightarrow> string" where
  "escapeGroup grp = concat (map (\<lambda>c. if c \<in> set ''=!:$/()'' then [bs, c] else [c]) grp)"

definition PATH_REGEXP_source :: string where
  "PATH_REGEXP_source =
     ''('' @ [bs, bs] @ ''.)''
     @ ''|'' @
     ''(['' @ [bs] @ ''/.])?(?:(?:'' @ [bs] @ '':('' @ [bs] @ ''w+)(?:'' @ [bs] @ ''(((?:'' @ [bs, bs]
       @ ''.|[^()])+)'' @ [bs] @ ''))?|'' @ [bs] @ ''(((?:'' @ [bs, bs] @ ''.|[^()])+)'' @ [bs]
       @ ''))([+*?])?|('' @ [bs] @ ''*))''"

text \<open>The compiled form of \<open>PATH_REGEXP\<close>; \<open>PATH_REGEXP_compiled\<close> below shows that it is
  what \<open>new RegExp\<close> makes of the source text.\<close>

definition PATH_REGEXP :: regexp where
  "PATH_REGEXP =
     \<lparr>source = PATH_REGEXP_source, ignoreCase = False,
      tree =
        Alt (Group 0 (Seq (Chr bs) Dot))
          (Seq (Opt True (Group 1 (Class False [CChar CHR ''/'', CChar CHR ''.''])))
            (Alt
              (Seq
                (Alt
                  (Seq (Chr CHR '':'')
                    (Seq (Group 2 (Plus True (Class False [CWord True])))
                      (Opt True
                        (Seq (Chr CHR ''('')
                          (Seq (Group 3 (Plus True (Alt (Seq (Chr bs) Dot) (Class True [CChar CHR ''('', CChar CHR '')'']))))
                            (Chr CHR '')''))))))
                  (Seq (Chr CHR ''('')
                    (Seq (Group 4 (Plus True (Alt (Seq (Chr bs) Dot) (Class True [CChar CHR ''('', CChar CHR '')'']))))
                      (Chr CHR '')''))))
                (Opt True (Group 5 (Class False [CChar CHR ''+'', CChar CHR ''*'', CChar CHR ''?'']))))
              (Group 6 (Chr CHR ''*'')))),
      groups = 7\<rparr>"

lemma PATH_REGEXP_compiled: "newRegExp PATH_REGEXP_source False = Inr PATH_REGEXP"
  by code_simp

lemma PATH_REGEXP_consuming: "consuming (tree PATH_REGEXP)"
  by (simp add: PATH_REGEXP_def)

datatype keyname = Named string | Indexed nat

record token =
  name :: keyname
  prefix :: string
  delimiter :: string
  optional :: bool
  repeat :: bool
  pattern :: string

datatype tok = Str string | Key token

text \<open>A string or \<open>undefined\<close> used as a condition, and the operator \<open>||\<close> on it.\<close>

definition truthy :: "string option \<Rightarrow> bool" where
  "truthy v = (case v of None \<Rightarrow> False | Some x \<Rightarrow> x \<noteq> [])"

definition orElse :: "string option \<Rightarrow> string \<Rightarrow> string" where
  "orElse v d = (case v of None \<Rightarrow> d | Some x \<Rightarrow> if x = [] then d else x)"

definition slice :: "string \<Rightarrow> nat \<Rightarrow> nat \<Rightarrow> string" where
  "slice str a b = take (b - a) (drop a str)"

text \<open>The loop of \<open>parse\<close>: \<open>idx\<close> is the variable \<open>index\<close> (and the \<open>lastIndex\<close> of the
  global expression, which is the end of the previous match as well).\<close>

function parseLoop :: "string \<Rightarrow> nat \<Rightarrow> string \<Rightarrow> nat \<Rightarrow> tok list \<Rightarrow> tok list" where
  "parseLoop str idx path key tokens =
     (case execFrom PATH_REGEXP str idx of
        None \<Rightarrow>
          (let path1 = (if idx < length str then path @ drop idx str else path)
           in if path1 \<noteq> [] then tokens @ [Str path1] else tokens)
      | Some res \<Rightarrow>
          (let escaped = entry res 1;
               path1 = path @ slice str idx (index res);
               idx1 = index res + length (whole res)
           in if truthy escaped then
                parseLoop str idx1 (path1 @ take 1 (drop 1 (orElse escaped []))) key tokens
              else
                (let tokens1 = (if path1 \<noteq> [] then tokens @ [Str path1] else tokens);
                     prefix' = entry res 2;
                     name' = entry res 3;
                     capture = entry res 4;
                     grp = entry res 5;
                     suffix = entry res 6;
                     asterisk = entry res 7;
                     repeat' = (suffix = Some ''+'' \<or> suffix = Some ''*'');
                     optional' = (suffix = Some ''?'' \<or> suffix = Some ''*'');
                     delimiter' = orElse prefix' ''/'';
                     pattern' = orElse capture (orElse grp
                                  (if truthy asterisk then ''.*'' else ''[^'' @ delimiter' @ '']+?''))
                 in parseLoop str idx1 [] (if truthy name' then key else Suc key)
                      (tokens1 @ [Key \<lparr>name = (if truthy name' then Named (orElse name' []) else Indexed key),
                                        prefix = orElse prefix' [],
                                        delimiter = delimiter',
                                        optional = optional',
                                        repeat = repeat',
                                        pattern = escapeGroup pattern'\<rparr>]))))"
  by pat_completeness auto

termination
proof (relation "measure (\<lambda>(str, idx, path, key, tokens). length str - idx)")
  show "wf (measure (\<lambda>(str, idx, path, key, tokens). length str - idx))" by simp
next
  fix str :: string and idx :: nat and path :: string and key :: nat and tokens :: "tok list"
    and res x xa xb
  assume e: "execFrom PATH_REGEXP str idx = Some res"
    and "xb = index res + length (whole res)"
  with execFrom_bounds(2)[OF e] execFrom_bounds(3)[OF e PATH_REGEXP_consuming]
  show "((str, xb, xa @ take 1 (drop 1 (orElse x [])), key, tokens), str, idx, path, key, tokens)
          \<in> measure (\<lambda>(str, idx, path, key, tokens). length str - idx)"
    by simp
next
  fix str :: string and idx :: nat and path :: string and key :: nat and tokens :: "tok list"
    and res xb and t1 :: "tok list" and k1 :: nat
  assume e: "execFrom PATH_REGEXP str idx = Some res"
    and "xb = index res + length (whole res)"
  with execFrom_bounds(2)[OF e] execFrom_bounds(3)[OF e PATH_REGEXP_consuming]
  show "((str, xb, [], k1, t1), str, idx, path, key, tokens)
          \<in> measure (\<lambda>(str, idx, path, key, tokens). length str - idx)"
    by simp
qed

declare parseLoop.simps [simp del]

definition parse :: "string \<Rightarrow> tok list" where
  "parse str = parseLoop str 0 [] 0 []"


subsection \<open>Tokens to a matching expression\<close>

text \<open>The options object; \<open>None\<close> is a property that is not set.\<close>

record options =
  sensitive :: "bool option"
  strict :: "bool option"
  endOpt :: "bool option"

definition flags :: "options \<Rightarrow> string" where
  "flags opts = (if sensitive opts = Some True then [] else ''i'')"

definition tokenRoute :: "tok \<Rightarrow> string" where
  "tokenRoute t =
     (case t of
        Str str \<Rightarrow> escapeString str
      | Key k \<Rightarrow>
          (let prefix' = escapeString (prefix k);
               capture = (if repeat k then pattern k @ ''(?:'' @ prefix' @ pattern k @ '')*'' else pattern k)
           in if optional k then
                (if prefix' \<noteq> [] then ''(?:'' @ prefix' @ ''('' @ capture @ ''))?''
                 else ''('' @ capture @ '')?'')
              else prefix' @ ''('' @ capture @ '')''))"

definition endsWithSlash :: "tok list \<Rightarrow> bool" where
  "endsWithSlash tokens =
     (case rev tokens of
        Str lastToken # _ \<Rightarrow> lastToken \<noteq> [] \<and> last lastToken = CHR ''/''
      | _ \<Rightarrow> False)"

text \<open>The source text that \<open>tokensToRegExp\<close> hands to \<open>new RegExp\<close>.\<close>

definition routeSource :: "tok list \<Rightarrow> options \<Rightarrow> string" where
  "routeSource tokens opts =
     (let strict' = (strict opts = Some True);
          end' = (endOpt opts \<noteq> Some False);
          route = concat (map tokenRoute tokens);
          route1 = (if \<not> strict' then
                      (if endsWithSlash tokens then take (length route - 2) route else route)
                        @ ''(?:'' @ [bs] @ ''/(?=$))?''
                    else route);
          route2 = (if end' then route1 @ ''$''
                    else route1 @ (if strict' \<and> endsWithSlash tokens then [] else ''(?='' @ [bs] @ ''/|$)''))
      in ''^'' @ route2)"

definition tokensToRegExp :: "tok list \<Rightarrow> options \<Rightarrow> error + regexp" where
  "tokensToRegExp tokens opts = newRegExp (routeSource tokens opts) (flags opts = ''i'')"

definition tokenKeys :: "tok list \<Rightarrow> token list" where
  "tokenKeys tokens = concat (map (\<lambda>t. case t of Key k \<Rightarrow> [k] | Str str \<Rightarrow> []) tokens)"

text \<open>\<open>stringToRegexp\<close> returns the expression and pushes the key tokens onto \<open>keys\<close>; the
  model returns both. \<open>pathToRegexp\<close> is modelled for a pattern given as a string, the only
  form the router's \<open>route\<close> is typed to pass.\<close>

definition stringToRegexp :: "string \<Rightarrow> token list \<Rightarrow> options \<Rightarrow> error + regexp \<times> token list" where
  "stringToRegexp p keys opts =
     (let tokens = parse p in
      case tokensToRegExp tokens opts of
        Inl e \<Rightarrow> Inl e
      | Inr re \<Rightarrow> Inr (re, keys @ tokenKeys tokens))"

definition pathToRegexp :: "string \<Rightarrow> token list \<Rightarrow> options \<Rightarrow> error + regexp \<times> token list" where
  "pathToRegexp p keys opts = stringToRegexp p keys opts"

subsection \<open>Tokens to a path builder\<close>

text \<open>A value handed to the builder: an array (of strings), \<open>null\<close> or \<open>undefined\<close>
  (\<open>VNull\<close>, which is all that \<open>value == null\<close> tells apart), or anything else; the builder
  uses such a value only through its conversion to a string, so \<open>VStr\<close> stands for a string
  and for every number, function or object with that conversion.

  A parameter object has the properties of its own and the properties it inherits from its
  prototype chain; \<open>data[token.name]\<close> reads an own property first and an inherited one
  otherwise, and is \<open>undefined\<close> when there is neither. Property names are strings, a
  positional key is looked up under its decimal form.\<close>

datatype jsvalue = VStr string | VArr "string list" | VNull

record jsobject =
  own :: "string \<rightharpoonup> jsvalue"
  inherited :: "string \<rightharpoonup> jsvalue"

definition getProp :: "jsobject \<Rightarrow> string \<Rightarrow> jsvalue" where
  "getProp obj k =
     (case own obj k of
        Some v \<Rightarrow> v
      | None \<Rightarrow> (case inherited obj k of Some v \<Rightarrow> v | None \<Rightarrow> VNull))"

text \<open>What an object literal inherits from \<open>Object.prototype\<close>: the built-in methods, each
  by its conversion to a string as the engines print a built-in function, and the accessor
  \<open>__proto__\<close>, which yields \<open>Object.prototype\<close> itself.\<close>

definition nativeFunction :: "string \<Rightarrow> string" where
  "nativeFunction f = ''function '' @ f @ ''() { [native code] }''"

definition objectPrototype :: "string \<rightharpoonup> jsvalue" where
  "objectPrototype =
     map_of
       ((''constructor'', VStr (nativeFunction ''Object''))
        # (''__proto__'', VStr ''[object Object]'')
        # map (\<lambda>f. (f, VStr (nativeFunction f)))
            [''hasOwnProperty'', ''isPrototypeOf'', ''propertyIsEnumerable'', ''toLocaleString'',
             ''toString'', ''valueOf'', ''__defineGetter__'', ''__defineSetter__'',
             ''__lookupGetter__'', ''__lookupSetter__''])"

text \<open>The object an object literal with the properties \<open>props\<close> makes.\<close>

definition literal :: "(string \<rightharpoonup> jsvalue) \<Rightarrow> jsobject" where
  "literal props = \<lparr>own = props, inherited = objectPrototype\<rparr>"

fun showNat :: "nat \<Rightarrow> string" where
  "showNat n = (if n < 10 then [char_of (48 + n)] else showNat (n div 10) @ [char_of (48 + n mod 10)])"

declare showNat.simps [simp del]

definition nameString :: "keyname \<Rightarrow> string" where
  "nameString k = (case k of Named x \<Rightarrow> x | Indexed i \<Rightarrow> showNat i)"

text \<open>A string between double quotes, as the messages of the builder write it.\<close>

definition quoted :: "string \<Rightarrow> string" where
  "quoted str = [CHR 0x22] @ str @ [CHR 0x22]"

fun joinWith :: "string \<Rightarrow> string list \<Rightarrow> string" where
  "joinWith sep [] = []"
| "joinWith sep [x] = x"
| "joinWith sep (x # xs) = x @ sep @ joinWith sep xs"

text \<open>The array \<open>matches\<close>: one compiled expression per key token, a hole per string.\<close>

fun compileMatches :: "tok list \<Rightarrow> error + regexp option list" where
  "compileMatches [] = Inr []"
| "compileMatches (Str str # ts) =
     (case compileMatches ts of Inl e \<Rightarrow> Inl e | Inr ms \<Rightarrow> Inr (None # ms))"
| "compileMatches (Key k # ts) =
     (case newRegExp (''^'' @ pattern k @ ''$'') False of
        Inl e \<Rightarrow> Inl e
      | Inr re \<Rightarrow> (case compileMatches ts of Inl e \<Rightarrow> Inl e | Inr ms \<Rightarrow> Inr (Some re # ms)))"

definition testMatch :: "regexp option \<Rightarrow> string \<Rightarrow> error + bool" where
  "testMatch mre segment =
     (case mre of None \<Rightarrow> Inl (TypeError ''matches[i] is undefined'') | Some re \<Rightarrow> Inr (test re segment))"

text \<open>The inner loop over the values of a repeated parameter; \<open>first\<close> is \<open>j === 0\<close>.\<close>

fun repeatSegments :: "token \<Rightarrow> regexp option \<Rightarrow> string list \<Rightarrow> bool \<Rightarrow> string \<Rightarrow> error + string" where
  "repeatSegments k mre [] first p = Inr p"
| "repeatSegments k mre (v # vs) first p =
     (let segment = encodeURIComponent v in
      case testMatch mre segment of
        Inl e \<Rightarrow> Inl e
      | Inr ok \<Rightarrow>
          if \<not> ok then
            Inl (TypeError (''Expected all '' @ quoted (nameString (name k)) @ '' to match '' @ quoted (pattern k)
                   @ '', but received '' @ quoted segment))
          else repeatSegments k mre vs False (p @ (if first then prefix k else delimiter k) @ segment))"

text \<open>The outer loop of the builder over the tokens and their compiled expressions.\<close>

fun buildPath :: "(tok \<times> regexp option) list \<Rightarrow> jsobject \<Rightarrow> string \<Rightarrow> error + string" where
  "buildPath [] d p = Inr p"
| "buildPath ((Str str, mre) # ts) d p = buildPath ts d (p @ str)"
| "buildPath ((Key k, mre) # ts) d p =
     (case getProp d (nameString (name k)) of
        VNull \<Rightarrow>
          if optional k then buildPath ts d p
          else Inl (TypeError (''Expected '' @ quoted (nameString (name k)) @ '' to be defined''))
      | VArr vs \<Rightarrow>
          if \<not> repeat k then
            Inl (TypeError (''Expected '' @ quoted (nameString (name k)) @ '' to not repeat, but received ''
                   @ quoted (joinWith '','' vs)))
          else if vs = [] then
            (if optional k then buildPath ts d p
             else Inl (TypeError (''Expected '' @ quoted (nameString (name k)) @ '' to not be empty'')))
          else
            (case repeatSegments k mre vs True p of
               Inl e \<Rightarrow> Inl e
             | Inr p' \<Rightarrow> buildPath ts d p')
      | VStr v \<Rightarrow>
          (let segment = encodeURIComponent v in
           case testMatch mre segment of
             Inl e \<Rightarrow> Inl e
           | Inr ok \<Rightarrow>
               if \<not> ok then
                 Inl (TypeError (''Expected '' @ quoted (nameString (name k)) @ '' to match '' @ quoted (pattern k)
                        @ '', but received '' @ quoted segment))
               else buildPath ts d (p @ prefix k @ segment)))"

text \<open>\<open>tokensToFunction\<close> compiles the expressions at once and returns the builder; the
  builder takes the parameter object, \<open>None\<close> when it is left out: \<open>obj || {}\<close> is then
  the empty object literal.\<close>

definition tokensToFunction :: "tok list \<Rightarrow> error + (jsobject option \<Rightarrow> error + string)" where
  "tokensToFunction tokens =
     (case compileMatches tokens of
        Inl e \<Rightarrow> Inl e
      | Inr matches \<Rightarrow>
          Inr (\<lambda>obj. buildPath (zip tokens matches)
                       (case obj of None \<Rightarrow> literal Map.empty | Some d \<Rightarrow> d) []))"

definition compile :: "string \<Rightarrow> error + (jsobject option \<Rightarrow> error + string)" where
  "compile str = tokensToFunction (parse str)"

text \<open>Applying the builder of a pattern to a parameter object.\<close>

definition toPath :: "string \<Rightarrow> jsobject \<Rightarrow> error + string" where
  "toPath str d = (case compile str of Inl e \<Rightarrow> Inl e | Inr f \<Rightarrow> f (Some d))"


section \<open>The router: controller, context and route\<close>

subsection \<open>String operations of the host language\<close>

fun startsWith :: "string \<Rightarrow> string \<Rightarrow> bool" where
  "startsWith s [] = True"
| "startsWith [] (x # xs) = False"
| "startsWith (c # cs) (x # xs) = (c = x \<and> startsWith cs xs)"

text \<open>\<open>indexOf\<close>: the first position where \<open>x\<close> occurs in \<open>s\<close>, \<open>None\<close> for \<open>-1\<close>.\<close>

fun indexOf :: "string \<Rightarrow> string \<Rightarrow> nat option" where
  "indexOf [] x = (if x = [] then Some 0 else None)"
| "indexOf (c # cs) x =
     (if startsWith (c # cs) x then Some 0 else map_option Suc (indexOf cs x))"

text \<open>\<open>s.replace(x, y)\<close> with a string \<open>x\<close> replaces the first occurrence only.\<close>

definition replaceFirst :: "string \<Rightarrow> string \<Rightarrow> string \<Rightarrow> string" where
  "replaceFirst s x y =
     (case indexOf s x of None \<Rightarrow> s | Some i \<Rightarrow> take i s @ y @ drop (i + length x) s)"

text \<open>\<open>s.replace(re, y)\<close> with an expression without the flag \<open>g\<close>, and a \<open>y\<close> without
  \<open>$\<close>, replaces the first match.\<close>

definition replaceRegExp :: "string \<Rightarrow> regexp \<Rightarrow> string \<Rightarrow> string" where
  "replaceRegExp s re y =
     (case exec re s of
        None \<Rightarrow> s
      | Some res \<Rightarrow> take (index res) s @ y @ drop (index res + length (whole res)) s)"

text \<open>\<open>s.split('#')\<close>\<close>

fun splitOn :: "char \<Rightarrow> string \<Rightarrow> string list" where
  "splitOn sep [] = [[]]"
| "splitOn sep (c # cs) =
     (if c = sep then [] # splitOn sep cs
      else (case splitOn sep cs of [] \<Rightarrow> [[c]] | p # ps \<Rightarrow> (c # p) # ps))"

definition escapeRegExp :: "string \<Rightarrow> string" where
  "escapeRegExp s = concat (map (\<lambda>c. if c \<in> set (''.+*?=^!:${}()[]|/'' @ [bs]) then [bs, c] else [c]) s)"

subsection \<open>Numbers of the host language\<close>

text \<open>The counter \<open>len\<close> of the controller is a number of the host language, a double: a
  finite value is given by the rational it denotes (the two zeros are not told apart),
  and there are the two infinities and \<open>NaN\<close>. \<open>roundDouble\<close> is the rounding of an exact
  result to the nearest double, ties to the even significand: \<open>exponent a\<close> is the \<open>e\<close> with
  \<open>2\<^sup>e \<le> a < 2\<^sup>e\<^sup>+\<^sup>1\<close>, the doubles of that binade are the multiples of \<open>2\<^sup>e\<^sup>-\<^sup>5\<^sup>2\<close> (of
  \<open>2\<^sup>-\<^sup>1\<^sup>0\<^sup>7\<^sup>4\<close> below \<open>2\<^sup>-\<^sup>1\<^sup>0\<^sup>2\<^sup>2\<close>), and a result that rounds to \<open>2\<^sup>1\<^sup>0\<^sup>2\<^sup>4\<close> or more is infinite.\<close>

datatype number = Finite rat | PlusInfinity | MinusInfinity | NotANumber

definition pow2 :: "int \<Rightarrow> rat" where
  "pow2 k = (if 0 \<le> k then 2 ^ nat k else 1 / 2 ^ nat (- k))"

fun log2 :: "nat \<Rightarrow> nat" where
  "log2 n = (if n < 2 then 0 else Suc (log2 (n div 2)))"

declare log2.simps [simp del]

definition exponent :: "rat \<Rightarrow> int" where
  "exponent a =
     (if 1 \<le> a then int (log2 (nat \<lfloor>a\<rfloor>)) else - int (Suc (log2 (nat \<lceil>1 / a\<rceil> - 1))))"

definition roundDouble :: "rat \<Rightarrow> number" where
  "roundDouble x =
     (if x = 0 then Finite 0
      else
        (let a = \<bar>x\<bar>;
             e = max (exponent a) (- 1022);
             ulp = pow2 (e - 52);
             q = a / ulp;
             n = \<lfloor>q\<rfloor>;
             r = q - of_int n;
             n' = (if r < 1 / 2 then n else if 1 / 2 < r then n + 1 else if even n then n else n + 1);
             y = of_int n' * ulp
         in if pow2 1024 \<le> y then (if 0 < x then PlusInfinity else MinusInfinity)
            else Finite (if 0 < x then y else - y)))"

text \<open>\<open>len++\<close>, \<open>len--\<close> and \<open>len > 0\<close>.\<close>

definition increment :: "number \<Rightarrow> number" where
  "increment v = (case v of Finite x \<Rightarrow> roundDouble (x + 1) | _ \<Rightarrow> v)"

definition decrement :: "number \<Rightarrow> number" where
  "decrement v = (case v of Finite x \<Rightarrow> roundDouble (x - 1) | _ \<Rightarrow> v)"

definition positive :: "number \<Rightarrow> bool" where
  "positive v = (case v of Finite x \<Rightarrow> 0 < x | PlusInfinity \<Rightarrow> True | _ \<Rightarrow> False)"

subsection \<open>The state of the controller and of its window\<close>

text \<open>A state object is a list of properties; \<open>None\<close> is a state that was not given.\<close>

type_synonym jsstate = "(string \<times> string) list"

definition setProp :: "string \<Rightarrow> string \<Rightarrow> jsstate \<Rightarrow> jsstate" where
  "setProp k v st = (if k \<in> fst ` set st then map (\<lambda>(k', v'). if k' = k then (k', v) else (k', v')) st
                     else st @ [(k, v)])"

text \<open>The parameters of a context: a key that is absent is not an own property; a key
  bound to \<open>None\<close> is an own property whose value is \<open>undefined\<close>.\<close>

type_synonym params = "string \<rightharpoonup> string option"

record Context =
  init :: "bool option"
  handled :: "bool option"
  canonicalPath :: string
  path :: string
  title :: string
  state :: jsstate
  querystring :: string
  pathname :: string
  params :: params
  hash :: string

text \<open>The calls made on \<open>window.history\<close>, in order.\<close>

datatype hist = PushState jsstate string string | ReplaceState jsstate string string | GoBack

text \<open>One record per call of \<open>dispatch\<close>: its counters \<open>i\<close> and \<open>j\<close>, its context and the
  previous context (both as indices into the contexts created so far).\<close>

record activation =
  actI :: nat
  actJ :: nat
  actCtx :: nat
  actPrev :: "nat option"

text \<open>The middleware invocations, recorded for the statements about their order:
  \<open>EvExit d j\<close> is the call of exit middleware \<open>j\<close> by the dispatch \<open>d\<close>, and
  \<open>EvEnter d i p cur\<close> the call of enter middleware \<open>i\<close> by the dispatch \<open>d\<close>, made when
  the path of its context was \<open>p\<close> and the current path of the controller was \<open>cur\<close>.\<close>

datatype event = EvExit nat nat | EvEnter nat nat string string

record world =
  current :: string
  len :: number
  pDecodeURLComponents :: bool
  pBase :: string
  pStrict :: bool
  pRunning :: bool
  pHashbang :: bool
  prevContext :: "nat option"
  locPathname :: string
  locSearch :: string
  locHash :: string
  locProtocol :: string
  docTitle :: string
  history :: "hist list"
  href :: "string option"
  ctxs :: "Context list"
  acts :: "activation list"
  trace :: "event list"

definition getBase :: "'a world_scheme \<Rightarrow> string" where
  "getBase w =
     (if pBase w \<noteq> [] then pBase w
      else if pHashbang w \<and> locProtocol w = ''file:'' then locPathname w
      else pBase w)"

text \<open>\<open>_decodeURLEncodedURIComponent\<close>; \<open>None\<close> is a value that is not a string
  (\<open>undefined\<close>).\<close>

definition decodeURLEncodedURIComponent :: "bool \<Rightarrow> string option \<Rightarrow> error + string option" where
  "decodeURLEncodedURIComponent decodeURLComponents val =
     (case val of
        None \<Rightarrow> Inr None
      | Some v \<Rightarrow>
          if decodeURLComponents then
            (case decodeURIComponent (map (\<lambda>c. if c = CHR ''+'' then CHR '' '' else c) v) of
               Inl e \<Rightarrow> Inl e
             | Inr r \<Rightarrow> Inr (Some r))
          else Inr (Some v))"

definition decodeString :: "bool \<Rightarrow> string \<Rightarrow> error + string" where
  "decodeString decodeURLComponents v =
     (case decodeURLEncodedURIComponent decodeURLComponents (Some v) of
        Inl e \<Rightarrow> Inl e
      | Inr r \<Rightarrow> Inr (case r of None \<Rightarrow> [] | Some x \<Rightarrow> x))"

text \<open>The constructor of \<open>Context\<close>.\<close>

definition newContext :: "string \<Rightarrow> jsstate option \<Rightarrow> 'a world_scheme \<Rightarrow> error + Context" where
  "newContext p0 state0 w =
     (let hashbang = pHashbang w;
          dec = pDecodeURLComponents w;
          pageBase = getBase w;
          p = (if take 1 p0 = ''/'' \<and> indexOf p0 pageBase \<noteq> Some 0
               then pageBase @ (if hashbang then ''#!'' else []) @ p0 else p0);
          i = indexOf p ''?''
      in case newRegExp (''^'' @ escapeRegExp pageBase) False of
           Inl e \<Rightarrow> Inl e
         | Inr re \<Rightarrow>
             (let path1 = (let r = replaceRegExp p re [] in if r = [] then ''/'' else r);
                  path2 = (if hashbang then (let r = replaceFirst path1 ''#!'' [] in if r = [] then ''/'' else r)
                           else path1)
              in case (case i of None \<Rightarrow> Inr [] | Some n \<Rightarrow> decodeString dec (drop (Suc n) p)) of
                   Inl e \<Rightarrow> Inl e
                 | Inr qs \<Rightarrow>
                     (case decodeString dec (case i of None \<Rightarrow> p | Some n \<Rightarrow> take n p) of
                        Inl e \<Rightarrow> Inl e
                      | Inr pn \<Rightarrow>
                          (let ctx = \<lparr>init = None, handled = None, canonicalPath = p, path = path2,
                                      title = docTitle w,
                                      state = setProp ''path'' p (case state0 of None \<Rightarrow> [] | Some s \<Rightarrow> s),
                                      querystring = qs, pathname = pn, params = Map.empty, hash = []\<rparr>
                           in if hashbang \<or> indexOf path2 ''#'' = None then Inr ctx
                              else
                                (let parts = splitOn (CHR ''#'') path2
                                 in case decodeString dec (parts ! 1) of
                                      Inl e \<Rightarrow> Inl e
                                    | Inr h \<Rightarrow>
                                        Inr (ctx\<lparr>path := hd parts, pathname := hd parts, hash := h,
                                                 querystring := hd (splitOn (CHR ''#'') qs)\<rparr>))))))"

subsection \<open>Route\<close>

record route =
  rpath :: string
  rregexp :: regexp
  keys :: "token list"

text \<open>The constructor of \<open>Route\<close> for the controller setting \<open>_strict\<close>; the options it is
  called with by \<open>route\<close> and \<open>exit\<close> are \<open>null\<close>.\<close>

definition newRoute :: "string \<Rightarrow> options option \<Rightarrow> bool \<Rightarrow> error + route" where
  "newRoute p options0 pageStrict =
     (let opts0 = (case options0 of None \<Rightarrow> \<lparr>sensitive = None, strict = None, endOpt = None\<rparr> | Some opts \<Rightarrow> opts);
          opts = opts0\<lparr>strict := Some (strict opts0 = Some True \<or> pageStrict)\<rparr>;
          p' = (if p = ''*'' then ''(.*)'' else p)
      in case pathToRegexp p' [] opts of
           Inl e \<Rightarrow> Inl e
         | Inr (re, ks) \<Rightarrow> Inr \<lparr>rpath = p', rregexp = re, keys = ks\<rparr>)"

text \<open>The parameters are an object literal whose own properties are the map. So
  \<open>params.hasOwnProperty\<close> is the inherited method unless the parameters have an own
  property of that name, which is a string or \<open>undefined\<close> and cannot be called; and the
  assignment \<open>params[k] = val\<close> makes or changes an own property, except for the name
  \<open>__proto__\<close>: unless it is an own property already, the assignment goes to the inherited
  accessor, which ignores a string and \<open>undefined\<close>.\<close>

definition hasOwnProperty :: "params \<Rightarrow> string \<Rightarrow> error + bool" where
  "hasOwnProperty ps k =
     (if ''hasOwnProperty'' \<in> dom ps then Inl (TypeError ''params.hasOwnProperty is not a function'')
      else Inr (k \<in> dom ps))"

definition assign :: "string \<Rightarrow> string option \<Rightarrow> params \<Rightarrow> params" where
  "assign k val ps = (if k = ''__proto__'' \<and> k \<notin> dom ps then ps else ps(k \<mapsto> val))"

text \<open>The loop of \<open>match\<close> over the captures \<open>m[1], m[2], ...\<close> and the keys: the capture is
  decoded first; reading the name of a key that does not exist is a \<open>TypeError\<close>;
  \<open>hasOwnProperty\<close> is called only for a capture that is \<open>undefined\<close>. The parameters are
  changed in place, so the result carries them also when an exception ends the loop.\<close>

fun matchLoop :: "token list \<Rightarrow> bool \<Rightarrow> string option list \<Rightarrow> params \<Rightarrow> params \<times> (error + bool)" where
  "matchLoop ks dec [] ps = (ps, Inr True)"
| "matchLoop ks dec (v # vs) ps =
     (case decodeURLEncodedURIComponent dec v of
        Inl e \<Rightarrow> (ps, Inl e)
      | Inr val \<Rightarrow>
          (case ks of
             [] \<Rightarrow> (ps, Inl (TypeError ''key is undefined''))
           | k # ks' \<Rightarrow>
               (case (if val \<noteq> None then Inr True
                      else (case hasOwnProperty ps (nameString (name k)) of
                              Inl e \<Rightarrow> Inl e
                            | Inr b \<Rightarrow> Inr (\<not> b))) of
                  Inl e \<Rightarrow> (ps, Inl e)
                | Inr write \<Rightarrow>
                    matchLoop ks' dec vs (if write then assign (nameString (name k)) val ps else ps))))"

definition match :: "route \<Rightarrow> bool \<Rightarrow> string \<Rightarrow> params \<Rightarrow> params \<times> (error + bool)" where
  "match r dec p ps =
     (let pathname' = (case indexOf p ''?'' of None \<Rightarrow> p | Some qsIndex \<Rightarrow> take qsIndex p)
      in case decodeURIComponent pathname' of
           Inl e \<Rightarrow> (ps, Inl e)
         | Inr decoded \<Rightarrow>
             (let m = exec (rregexp r) decoded;
                  ps1 = ps(''0'' := None)
              in case m of
                   None \<Rightarrow> (ps1, Inr False)
                 | Some res \<Rightarrow> matchLoop (keys r) dec (tl (entries res)) ps1))"

subsection \<open>Handlers\<close>

text \<open>
  A handler is any function of the state it is called in and of its context; what it does
  is a script: a sequence of calls into the controller, each followed by a continuation
  that sees the state the call left. \<open>Next\<close> is the call of the continuation \<open>next\<close> the
  handler was given, \<open>SetHandled\<close> and \<open>SetLen\<close> are the assignments \<open>ctx.handled = b\<close> and
  \<open>page.len = n\<close>, \<open>SetTimeout\<close> defers a script, \<open>Throw\<close> raises. The lists of middleware
  are fixed while a script runs: a handler does not register routes.
\<close>

datatype cmd =
    Next
  | SetHandled bool
  | SetLen number
  | Show string "jsstate option" "bool option" "bool option"
  | Replace string "jsstate option" "bool option" "bool option"
  | Back "string option" "jsstate option"
  | Stop
  | Throw error
  | SetTimeout script
and script = Done | Do cmd "world \<Rightarrow> script"

type_synonym handler = "world \<Rightarrow> nat \<Rightarrow> script"

text \<open>What is fixed while a script runs: the two lists of middleware, and the window. Of
  the window the model has one function: \<open>resolve url (pathname, search, hash)\<close> is the
  location that \<open>history.pushState\<close> and \<open>history.replaceState\<close> leave when they are given
  \<open>url\<close> at that location.\<close>

type_synonym location = "string \<times> string \<times> string"

record router =
  callbacks :: "(route \<times> handler) list"
  exits :: "(route \<times> handler) list"
  resolve :: "string \<Rightarrow> location \<Rightarrow> location"

text \<open>The continuation \<open>next\<close> of a running script: the dispatch it belongs to and the
  phase; a script started by a timer of the controller has none.\<close>

datatype phase = ExitPhase | EnterPhase

type_synonym env = "(nat \<times> phase) option"

type_synonym timer = "env \<times> (world \<Rightarrow> script)"

record machine = world +
  timers :: "timer list"

text \<open>How a call ends: it returns (with a context, for \<open>show\<close> and \<open>replace\<close>) or it
  throws; both leave a state.\<close>

datatype outcome = Ok "nat option" machine | Raise error machine

definition setHandled :: "nat \<Rightarrow> bool \<Rightarrow> machine \<Rightarrow> machine" where
  "setHandled c b m = m\<lparr>ctxs := (ctxs m)[c := (ctxs m ! c)\<lparr>handled := Some b\<rparr>]\<rparr>"

definition historyUrl :: "machine \<Rightarrow> Context \<Rightarrow> string" where
  "historyUrl m ctx = (if pHashbang m \<and> path ctx \<noteq> ''/'' then ''#!'' @ path ctx else canonicalPath ctx)"

text \<open>The window after \<open>pushState\<close> or \<open>replaceState\<close> with \<open>url\<close>.\<close>

definition locate :: "router \<Rightarrow> string \<Rightarrow> machine \<Rightarrow> machine" where
  "locate rt url m =
     (case resolve rt url (locPathname m, locSearch m, locHash m) of
        (pathname', search', hash') \<Rightarrow>
          m\<lparr>locPathname := pathname', locSearch := search', locHash := hash'\<rparr>)"

definition pushState :: "router \<Rightarrow> nat \<Rightarrow> machine \<Rightarrow> machine" where
  "pushState rt c m =
     (let ctx = ctxs m ! c;
          m1 = m\<lparr>len := increment (len m)\<rparr>
      in locate rt (historyUrl m1 ctx)
           (m1\<lparr>history := history m1 @ [PushState (state ctx) (title ctx) (historyUrl m1 ctx)]\<rparr>))"

definition save :: "router \<Rightarrow> nat \<Rightarrow> machine \<Rightarrow> machine" where
  "save rt c m =
     (let ctx = ctxs m ! c
      in locate rt (historyUrl m ctx)
           (m\<lparr>history := history m @ [ReplaceState (state ctx) (title ctx) (historyUrl m ctx)]\<rparr>))"

definition stop :: "machine \<Rightarrow> machine" where
  "stop m = (if \<not> pRunning m then m else m\<lparr>current := [], len := Finite 0, pRunning := False\<rparr>)"

definition unhandled :: "nat \<Rightarrow> machine \<Rightarrow> machine" where
  "unhandled c m =
     (let ctx = ctxs m ! c
      in if handled ctx = Some True then m
         else
           (let current' = (if pHashbang m then getBase m @ replaceFirst (locHash m) ''#!'' []
                            else locPathname m @ locSearch m)
            in if current' = canonicalPath ctx then m
               else (setHandled c False (stop m))\<lparr>href := Some (canonicalPath ctx)\<rparr>))"

text \<open>\<open>back\<close>: \<open>setTimeout\<close> appends a timer; the base path is read when the timer fires.\<close>

definition back' :: "string option \<Rightarrow> jsstate option \<Rightarrow> machine \<Rightarrow> machine" where
  "back' p st m =
     (if positive (len m) then m\<lparr>history := history m @ [GoBack], len := decrement (len m)\<rparr>
      else if truthy p then
        m\<lparr>timers := timers m @ [(None, \<lambda>w. Do (Show (orElse p []) st None None) (\<lambda>w'. Done))]\<rparr>
      else
        m\<lparr>timers := timers m @ [(None, \<lambda>w. Do (Show (getBase w) st None None) (\<lambda>w'. Done))]\<rparr>)"

text \<open>The context a handler was called with: the new context in the enter phase, the
  previous one in the exit phase.\<close>

definition ownContext :: "env \<Rightarrow> machine \<Rightarrow> nat option" where
  "ownContext e m =
     (case e of
        None \<Rightarrow> None
      | Some (d, ph) \<Rightarrow>
          if d < length (acts m) then
            (case ph of EnterPhase \<Rightarrow> Some (actCtx (acts m ! d)) | ExitPhase \<Rightarrow> actPrev (acts m ! d))
          else None)"

text \<open>
  The engine. Handlers may navigate while a dispatch runs, so a dispatch need not end: every
  call takes one unit of fuel, and \<open>None\<close> is a run that the fuel did not cover. The
  functions below are the bodies of the source functions, with the calls they make passed in
  as \<open>call\<close>; \<open>engine\<close> ties them together. \<open>nextExit\<close> and \<open>nextEnter\<close> are the two
  closures of \<open>dispatch\<close>, \<open>middleware\<close> is the function \<open>Route.middleware\<close> returns,
  applied to a context and to one of the closures, \<open>runScript\<close> runs what a handler does.
\<close>

datatype task =
    TRun env script
  | TNextExit nat
  | TNextEnter nat
  | TMiddleware nat phase "route \<times> handler" nat
  | TDispatch nat "nat option"
  | TShow string "jsstate option" "bool option" "bool option"
  | TReplace string "jsstate option" "bool option" "bool option"

type_synonym call = "task \<Rightarrow> machine \<Rightarrow> outcome option"

definition command :: "call \<Rightarrow> env \<Rightarrow> cmd \<Rightarrow> machine \<Rightarrow> outcome option" where
  "command call e c m =
     (case c of
        Next \<Rightarrow>
          (case e of
             None \<Rightarrow> Some (Raise (TypeError ''next is not a function'') m)
           | Some (d, ExitPhase) \<Rightarrow> call (TNextExit d) m
           | Some (d, EnterPhase) \<Rightarrow> call (TNextEnter d) m)
      | SetHandled b \<Rightarrow>
          (case ownContext e m of
             None \<Rightarrow> Some (Raise (TypeError ''ctx is undefined'') m)
           | Some c' \<Rightarrow> Some (Ok None (setHandled c' b m)))
      | SetLen v \<Rightarrow> Some (Ok None (m\<lparr>len := v\<rparr>))
      | Show p st dsp psh \<Rightarrow> call (TShow p st dsp psh) m
      | Replace p st ini dsp \<Rightarrow> call (TReplace p st ini dsp) m
      | Back p st \<Rightarrow> Some (Ok None (back' p st m))
      | Stop \<Rightarrow> Some (Ok None (stop m))
      | Throw err \<Rightarrow> Some (Raise err m)
      | SetTimeout sc \<Rightarrow> Some (Ok None (m\<lparr>timers := timers m @ [(e, \<lambda>w. sc)]\<rparr>)))"

definition runScript :: "call \<Rightarrow> env \<Rightarrow> script \<Rightarrow> machine \<Rightarrow> outcome option" where
  "runScript call e sc m =
     (case sc of
        Done \<Rightarrow> Some (Ok None m)
      | Do c k \<Rightarrow>
          (case command call e c m of
             None \<Rightarrow> None
           | Some (Raise err m') \<Rightarrow> Some (Raise err m')
           | Some (Ok r m') \<Rightarrow> call (TRun e (k (world.truncate m'))) m'))"

definition nextExit :: "call \<Rightarrow> router \<Rightarrow> nat \<Rightarrow> machine \<Rightarrow> outcome option" where
  "nextExit call rt d m =
     (if \<not> d < length (acts m) then Some (Raise (TypeError ''no such dispatch'') m)
      else
        (let a = acts m ! d;
             j = actJ a;
             m1 = m\<lparr>acts := (acts m)[d := a\<lparr>actJ := Suc j\<rparr>]\<rparr>
         in if \<not> j < length (exits rt) then call (TNextEnter d) m1
            else
              (case actPrev a of
                 None \<Rightarrow> Some (Raise (TypeError ''prev is undefined'') m1)
               | Some prev \<Rightarrow>
                   call (TMiddleware d ExitPhase (exits rt ! j) prev)
                        (m1\<lparr>trace := trace m1 @ [EvExit d j]\<rparr>))))"

definition nextEnter :: "call \<Rightarrow> router \<Rightarrow> nat \<Rightarrow> machine \<Rightarrow> outcome option" where
  "nextEnter call rt d m =
     (if \<not> d < length (acts m) then Some (Raise (TypeError ''no such dispatch'') m)
      else
        (let a = acts m ! d;
             i = actI a;
             m1 = m\<lparr>acts := (acts m)[d := a\<lparr>actI := Suc i\<rparr>]\<rparr>;
             c = actCtx a
         in if path (ctxs m1 ! c) \<noteq> current m1 then Some (Ok None (setHandled c False m1))
            else if \<not> i < length (callbacks rt) then Some (Ok None (unhandled c m1))
            else call (TMiddleware d EnterPhase (callbacks rt ! i) c)
                      (m1\<lparr>trace := trace m1 @ [EvEnter d i (path (ctxs m1 ! c)) (current m1)]\<rparr>)))"

definition middleware :: "call \<Rightarrow> nat \<Rightarrow> phase \<Rightarrow> route \<times> handler \<Rightarrow> nat \<Rightarrow> machine \<Rightarrow> outcome option" where
  "middleware call d ph rh c m =
     (let ctx = ctxs m ! c;
          matched = match (fst rh) (pDecodeURLComponents m) (path ctx) (params ctx);
          m1 = m\<lparr>ctxs := (ctxs m)[c := ctx\<lparr>params := fst matched\<rparr>]\<rparr>
      in case snd matched of
           Inl err \<Rightarrow> Some (Raise err m1)
         | Inr True \<Rightarrow> call (TRun (Some (d, ph)) (snd rh (world.truncate m1) c)) m1
         | Inr False \<Rightarrow>
             (case ph of ExitPhase \<Rightarrow> call (TNextExit d) m1 | EnterPhase \<Rightarrow> call (TNextEnter d) m1))"

definition dispatch :: "call \<Rightarrow> nat \<Rightarrow> nat option \<Rightarrow> machine \<Rightarrow> outcome option" where
  "dispatch call c prev m =
     (let d = length (acts m);
          m1 = m\<lparr>acts := acts m @ [\<lparr>actI = 0, actJ = 0, actCtx = c, actPrev = prev\<rparr>]\<rparr>
      in case prev of
           Some p \<Rightarrow> call (TNextExit d) m1
         | None \<Rightarrow> call (TNextEnter d) m1)"

definition show' :: "call \<Rightarrow> router \<Rightarrow> string \<Rightarrow> jsstate option \<Rightarrow> bool option \<Rightarrow> bool option \<Rightarrow> machine \<Rightarrow> outcome option" where
  "show' call rt p st dsp psh m =
     (case newContext p st m of
        Inl err \<Rightarrow> Some (Raise err m)
      | Inr ctx \<Rightarrow>
          (let c = length (ctxs m);
               prev = prevContext m;
               m1 = m\<lparr>ctxs := ctxs m @ [ctx], prevContext := Some c, current := path ctx\<rparr>
           in case (if dsp \<noteq> Some False then call (TDispatch c prev) m1 else Some (Ok None m1)) of
                None \<Rightarrow> None
              | Some (Raise err m2) \<Rightarrow> Some (Raise err m2)
              | Some (Ok r m2) \<Rightarrow>
                  Some (Ok (Some c) (if handled (ctxs m2 ! c) \<noteq> Some False \<and> psh \<noteq> Some False
                                     then pushState rt c m2 else m2))))"

definition replace' :: "call \<Rightarrow> router \<Rightarrow> string \<Rightarrow> jsstate option \<Rightarrow> bool option \<Rightarrow> bool option \<Rightarrow> machine \<Rightarrow> outcome option" where
  "replace' call rt p st ini dsp m =
     (case newContext p st m of
        Inl err \<Rightarrow> Some (Raise err m)
      | Inr ctx \<Rightarrow>
          (let c = length (ctxs m);
               prev = prevContext m;
               m1 = m\<lparr>ctxs := ctxs m @ [ctx\<lparr>init := ini\<rparr>], prevContext := Some c, current := path ctx\<rparr>;
               m2 = save rt c m1
           in case (if dsp \<noteq> Some False then call (TDispatch c prev) m2 else Some (Ok None m2)) of
                None \<Rightarrow> None
              | Some (Raise err m3) \<Rightarrow> Some (Raise err m3)
              | Some (Ok r m3) \<Rightarrow> Some (Ok (Some c) m3)))"

primrec engine :: "nat \<Rightarrow> router \<Rightarrow> task \<Rightarrow> machine \<Rightarrow> outcome option" where
  "engine 0 rt t m = None"
| "engine (Suc n) rt t m =
     (case t of
        TRun e sc \<Rightarrow> runScript (engine n rt) e sc m
      | TNextExit d \<Rightarrow> nextExit (engine n rt) rt d m
      | TNextEnter d \<Rightarrow> nextEnter (engine n rt) rt d m
      | TMiddleware d ph rh c \<Rightarrow> middleware (engine n rt) d ph rh c m
      | TDispatch c prev \<Rightarrow> dispatch (engine n rt) c prev m
      | TShow p st dsp psh \<Rightarrow> show' (engine n rt) rt p st dsp psh m
      | TReplace p st ini dsp \<Rightarrow> replace' (engine n rt) rt p st ini dsp m)"

text \<open>The event loop runs the oldest timer.\<close>

definition fire :: "nat \<Rightarrow> router \<Rightarrow> machine \<Rightarrow> outcome option" where
  "fire n rt m =
     (case timers m of
        [] \<Rightarrow> Some (Ok None m)
      | (e, f) # rest \<Rightarrow> engine n rt (TRun e (f (world.truncate m))) (m\<lparr>timers := rest\<rparr>))"

text \<open>A controller as \<open>new Page()\<close> makes it, in a window at the address \<open>pathname\<close>, before
  any navigation.\<close>

definition newPage :: "string \<Rightarrow> machine" where
  "newPage pathname' =
     \<lparr>current = [], len = Finite 0, pDecodeURLComponents = True, pBase = [], pStrict = False,
      pRunning = False, pHashbang = False, prevContext = None,
      locPathname = pathname', locSearch = [], locHash = [], locProtocol = ''http:'',
      docTitle = [], history = [], href = None, ctxs = [], acts = [], trace = [], timers = []\<rparr>"

text \<open>A window for the examples: a URL that is an absolute path replaces the pathname, the
  query string and the fragment of the location; a URL that is a fragment replaces the
  fragment.\<close>

definition exampleWindow :: "string \<Rightarrow> location \<Rightarrow> location" where
  "exampleWindow url loc =
     (if take 1 url = ''/'' then
        (let beforeHash = (case indexOf url ''#'' of None \<Rightarrow> url | Some i \<Rightarrow> take i url);
             hash' = (case indexOf url ''#'' of None \<Rightarrow> [] | Some i \<Rightarrow> drop i url)
         in (case indexOf beforeHash ''?'' of
               None \<Rightarrow> (beforeHash, [], hash')
             | Some j \<Rightarrow> (take j beforeHash, drop j beforeHash, hash')))
      else if take 1 url = ''#'' then (fst loc, fst (snd loc), url)
      else loc)"


section \<open>Properties of the path builder\<close>

lemma compileMatches_Str:
  assumes "compileMatches (Str str # ts) = Inr ms"
  obtains ms' where "ms = None # ms'" "compileMatches ts = Inr ms'"
  using assms by (cases "compileMatches ts") auto

lemma compileMatches_Key:
  assumes "compileMatches (Key k # ts) = Inr ms"
  obtains re ms' where "ms = Some re # ms'" "newRegExp (''^'' @ pattern k @ ''$'') False = Inr re"
    "compileMatches ts = Inr ms'"
  using assms
  by (cases "newRegExp (''^'' @ pattern k @ ''$'') False"; cases "compileMatches ts") auto

lemma repeatSegments_error:
  "repeatSegments k (Some re) vs first p = Inl e \<Longrightarrow> \<exists>msg. e = TypeError msg"
  by (induction vs arbitrary: first p) (auto simp: testMatch_def Let_def split: if_splits)

lemma repeatSegments_fails:
  "v \<in> set vs \<Longrightarrow> \<not> test re (encodeURIComponent v) \<Longrightarrow>
     \<exists>msg. repeatSegments k (Some re) vs first p = Inl (TypeError msg)"
  by (induction vs arbitrary: first p) (auto simp: testMatch_def Let_def)

lemma buildPath_error:
  "compileMatches tokens = Inr ms \<Longrightarrow> buildPath (zip tokens ms) d p = Inl e \<Longrightarrow> \<exists>msg. e = TypeError msg"
proof (induction tokens arbitrary: ms p)
  case Nil
  then show ?case by simp
next
  case (Cons t ts)
  show ?case
  proof (cases t)
    case (Str str)
    with Cons.prems(1) have "compileMatches (Str str # ts) = Inr ms" by simp
    then obtain ms' where ms: "ms = None # ms'" "compileMatches ts = Inr ms'"
      by (rule compileMatches_Str)
    with Cons.prems(2) Str have "buildPath (zip ts ms') d (p @ str) = Inl e" by simp
    from Cons.IH[OF ms(2) this] show ?thesis .
  next
    case (Key k)
    with Cons.prems(1) have "compileMatches (Key k # ts) = Inr ms" by simp
    then obtain re ms' where ms: "ms = Some re # ms'" "compileMatches ts = Inr ms'"
      by (rule compileMatches_Key)
    note IH = Cons.IH[OF ms(2)]
    from Cons.prems(2) Key ms(1) show ?thesis
      by (auto simp: testMatch_def Let_def split: option.splits jsvalue.splits if_splits sum.splits
               dest: IH repeatSegments_error)
  qed
qed


text \<open>\<open>refused k d\<close>: the parameter object \<open>d\<close> has, for the key token \<open>k\<close>, no value
  although \<open>k\<close> is required, an array although \<open>k\<close> does not repeat, an empty array although
  \<open>k\<close> is required, or a value whose encoded form fails the expression of \<open>k\<close>.\<close>

definition refused :: "token \<Rightarrow> jsobject \<Rightarrow> bool" where
  "refused k d \<longleftrightarrow>
     (getProp d (nameString (name k)) = VNull \<and> \<not> optional k)
     \<or> (\<exists>vs. getProp d (nameString (name k)) = VArr vs
            \<and> (\<not> repeat k \<or> (vs = [] \<and> \<not> optional k)
                \<or> (\<exists>v \<in> set vs. \<forall>re. newRegExp (''^'' @ pattern k @ ''$'') False = Inr re
                                       \<longrightarrow> \<not> test re (encodeURIComponent v))))
     \<or> (\<exists>v. getProp d (nameString (name k)) = VStr v
            \<and> (\<forall>re. newRegExp (''^'' @ pattern k @ ''$'') False = Inr re
                       \<longrightarrow> \<not> test re (encodeURIComponent v)))"

lemma buildPath_refused_head:
  assumes "newRegExp (''^'' @ pattern k @ ''$'') False = Inr re" and "refused k d"
  shows "buildPath ((Key k, Some re) # rest) d p \<noteq> Inr r"
proof (cases "getProp d (nameString (name k))")
  case VNull
  with assms(2) show ?thesis by (auto simp: refused_def)
next
  case (VStr v)
  with assms show ?thesis by (auto simp: refused_def testMatch_def Let_def)
next
  case (VArr vs)
  show ?thesis
  proof (cases "\<exists>v \<in> set vs. \<not> test re (encodeURIComponent v)")
    case True
    then obtain v where v: "v \<in> set vs" "\<not> test re (encodeURIComponent v)" by blast
    from v(1) have "vs \<noteq> []" by auto
    moreover from repeatSegments_fails[OF v, of k True p]
    obtain msg where "repeatSegments k (Some re) vs True p = Inl (TypeError msg)" by blast
    ultimately show ?thesis using VArr by simp
  next
    case False
    with VArr assms show ?thesis by (auto simp: refused_def)
  qed
qed

lemma buildPath_refused:
  "compileMatches tokens = Inr ms \<Longrightarrow> Key k \<in> set tokens \<Longrightarrow> refused k d \<Longrightarrow>
     buildPath (zip tokens ms) d p \<noteq> Inr r"
proof (induction tokens arbitrary: ms p)
  case Nil
  then show ?case by simp
next
  case (Cons t ts)
  show ?case
  proof (cases t)
    case (Str str)
    with Cons.prems(1) have "compileMatches (Str str # ts) = Inr ms" by simp
    then obtain ms' where ms: "ms = None # ms'" "compileMatches ts = Inr ms'"
      by (rule compileMatches_Str)
    from Cons.prems(2) Str have "Key k \<in> set ts" by simp
    from Cons.IH[OF ms(2) this Cons.prems(3), of "p @ str"] Str ms(1) show ?thesis by simp
  next
    case (Key k')
    with Cons.prems(1) have "compileMatches (Key k' # ts) = Inr ms" by simp
    then obtain re ms' where ms: "ms = Some re # ms'"
        "newRegExp (''^'' @ pattern k' @ ''$'') False = Inr re" "compileMatches ts = Inr ms'"
      by (rule compileMatches_Key)
    show ?thesis
    proof (cases "k' = k")
      case True
      with buildPath_refused_head[OF _ Cons.prems(3), of re "zip ts ms'" p r] ms(1,2) Key
      show ?thesis by simp
    next
      case False
      with Cons.prems(2) Key have "Key k \<in> set ts" by simp
      note IH = Cons.IH[OF ms(3) this Cons.prems(3)]
      from Key ms(1) show ?thesis
        by (auto simp: testMatch_def Let_def IH split: option.splits jsvalue.splits sum.splits)
    qed
  qed
qed

lemma buildPath_throws:
  assumes "compileMatches tokens = Inr ms" "Key k \<in> set tokens" "refused k d"
  shows "\<exists>msg. buildPath (zip tokens ms) d p = Inl (TypeError msg)"
proof (cases "buildPath (zip tokens ms) d p")
  case (Inl e)
  with buildPath_error[OF assms(1) Inl] show ?thesis by auto
next
  case (Inr r)
  with buildPath_refused[OF assms] show ?thesis by simp
qed


lemma tokensToFunction_Inr:
  assumes "tokensToFunction tokens = Inr f"
  obtains ms where "compileMatches tokens = Inr ms"
    "f = (\<lambda>obj. buildPath (zip tokens ms) (case obj of None \<Rightarrow> literal Map.empty | Some d \<Rightarrow> d) [])"
  using assms by (cases "compileMatches tokens") (auto simp: tokensToFunction_def)

lemma builder_throws:
  assumes "tokensToFunction tokens = Inr f" "Key k \<in> set tokens" "refused k d"
  shows "\<exists>msg. f (Some d) = Inl (TypeError msg)"
proof -
  from assms(1) obtain ms where ms: "compileMatches tokens = Inr ms"
    "f = (\<lambda>obj. buildPath (zip tokens ms) (case obj of None \<Rightarrow> literal Map.empty | Some d \<Rightarrow> d) [])"
    by (rule tokensToFunction_Inr)
  from buildPath_throws[OF ms(1) assms(2,3), of "[]"] ms(2) show ?thesis by simp
qed

text \<open>
  Claim C5, as amended. For the repeating pattern \<open>/a/:x+\<close> the builder applied to
  \<open>{x: ['1', '2']}\<close> returns exactly \<open>/a/1/2\<close>, and applied to \<open>{x: []}\<close> it throws a
  \<open>TypeError\<close>. For every token list whose expressions compile and every parameter object,
  the builder throws a \<open>TypeError\<close>, and returns no path, as soon as for one key token the
  value \<open>data[name]\<close>, read through the prototype chain, is \<open>null\<close> or \<open>undefined\<close> although
  the token is required, is an array although the token does not repeat, is the empty array
  although the token is required, or is a value (alone or in an array) whose encoded form
  fails the token's own expression. A parameter object that is left out is the empty object
  literal. A name that the object inherits is not missing: the empty object literal has a
  \<open>constructor\<close>, and the builder of \<open>/:constructor\<close> embeds it. A single value that is not
  an array is accepted for a repeating token: \<open>{x: '1'}\<close> gives \<open>/a/1\<close>.
\<close>

theorem builder_validation:
  "toPath ''/a/:x+'' (literal [''x'' \<mapsto> VArr [''1'', ''2'']]) = Inr ''/a/1/2''
   \<and> (\<exists>msg. toPath ''/a/:x+'' (literal [''x'' \<mapsto> VArr []]) = Inl (TypeError msg))
   \<and> toPath ''/a/:x+'' (literal [''x'' \<mapsto> VStr ''1'']) = Inr ''/a/1''
   \<and> toPath ''/:constructor'' (literal Map.empty)
         = Inr (''/'' @ encodeURIComponent (nativeFunction ''Object''))
   \<and> (\<forall>tokens f. tokensToFunction tokens = Inr f \<longrightarrow> f None = f (Some (literal Map.empty)))
   \<and> (\<forall>tokens f k (d::jsobject). tokensToFunction tokens = Inr f \<and> Key k \<in> set tokens \<longrightarrow>
         (getProp d (nameString (name k)) = VNull \<and> \<not> optional k
            \<longrightarrow> (\<exists>msg. f (Some d) = Inl (TypeError msg)))
       \<and> (\<forall>vs. getProp d (nameString (name k)) = VArr vs \<and> \<not> repeat k
            \<longrightarrow> (\<exists>msg. f (Some d) = Inl (TypeError msg)))
       \<and> (getProp d (nameString (name k)) = VArr [] \<and> \<not> optional k
            \<longrightarrow> (\<exists>msg. f (Some d) = Inl (TypeError msg)))
       \<and> (\<forall>v re. getProp d (nameString (name k)) = VStr v
              \<and> newRegExp (''^'' @ pattern k @ ''$'') False = Inr re
              \<and> \<not> test re (encodeURIComponent v)
            \<longrightarrow> (\<exists>msg. f (Some d) = Inl (TypeError msg)))
       \<and> (\<forall>vs v re. getProp d (nameString (name k)) = VArr vs \<and> v \<in> set vs
              \<and> newRegExp (''^'' @ pattern k @ ''$'') False = Inr re
              \<and> \<not> test re (encodeURIComponent v)
            \<longrightarrow> (\<exists>msg. f (Some d) = Inl (TypeError msg))))"
proof (intro conjI allI impI)
  show "toPath ''/a/:x+'' (literal [''x'' \<mapsto> VArr [''1'', ''2'']]) = Inr ''/a/1/2''" by code_simp
next
  have "toPath ''/a/:x+'' (literal [''x'' \<mapsto> VArr []])
          = Inl (TypeError (''Expected '' @ quoted ''x'' @ '' to not be empty''))"
    by code_simp
  then show "\<exists>msg. toPath ''/a/:x+'' (literal [''x'' \<mapsto> VArr []]) = Inl (TypeError msg)" by blast
next
  show "toPath ''/a/:x+'' (literal [''x'' \<mapsto> VStr ''1'']) = Inr ''/a/1''" by code_simp
next
  show "toPath ''/:constructor'' (literal Map.empty)
          = Inr (''/'' @ encodeURIComponent (nativeFunction ''Object''))"
    by code_simp
next
  fix tokens f assume "tokensToFunction tokens = Inr f"
  then obtain ms where "f = (\<lambda>obj. buildPath (zip tokens ms) (case obj of None \<Rightarrow> literal Map.empty | Some d \<Rightarrow> d) [])"
    by (rule tokensToFunction_Inr)
  then show "f None = f (Some (literal Map.empty))" by simp
next
  fix tokens f k and d :: jsobject
  assume a: "tokensToFunction tokens = Inr f \<and> Key k \<in> set tokens"
    and b: "getProp d (nameString (name k)) = VNull \<and> \<not> optional k"
  from b have "refused k d" by (simp add: refused_def)
  with a show "\<exists>msg. f (Some d) = Inl (TypeError msg)" by (blast intro: builder_throws)
next
  fix tokens f k and d :: jsobject and vs
  assume a: "tokensToFunction tokens = Inr f \<and> Key k \<in> set tokens"
    and b: "getProp d (nameString (name k)) = VArr vs \<and> \<not> repeat k"
  from b have "refused k d" by (simp add: refused_def)
  with a show "\<exists>msg. f (Some d) = Inl (TypeError msg)" by (blast intro: builder_throws)
next
  fix tokens f k and d :: jsobject
  assume a: "tokensToFunction tokens = Inr f \<and> Key k \<in> set tokens"
    and b: "getProp d (nameString (name k)) = VArr [] \<and> \<not> optional k"
  from b have "refused k d" by (simp add: refused_def)
  with a show "\<exists>msg. f (Some d) = Inl (TypeError msg)" by (blast intro: builder_throws)
next
  fix tokens f k and d :: jsobject and v re
  assume a: "tokensToFunction tokens = Inr f \<and> Key k \<in> set tokens"
    and b: "getProp d (nameString (name k)) = VStr v
              \<and> newRegExp (''^'' @ pattern k @ ''$'') False = Inr re
              \<and> \<not> test re (encodeURIComponent v)"
  from b have "refused k d" by (simp add: refused_def)
  with a show "\<exists>msg. f (Some d) = Inl (TypeError msg)" by (blast intro: builder_throws)
next
  fix tokens f k and d :: jsobject and vs v re
  assume a: "tokensToFunction tokens = Inr f \<and> Key k \<in> set tokens"
    and b: "getProp d (nameString (name k)) = VArr vs \<and> v \<in> set vs
              \<and> newRegExp (''^'' @ pattern k @ ''$'') False = Inr re
              \<and> \<not> test re (encodeURIComponent v)"
  from b have "refused k d" by (auto simp: refused_def)
  with a show "\<exists>msg. f (Some d) = Inl (TypeError msg)" by (blast intro: builder_throws)
qed

text \<open>The witness: the pattern \<open>/a/:x\<close>, whose key \<open>x\<close> is required and does not repeat,
  with the empty object literal, with an array, and with a value that fails a custom
  expression; and the builder of \<open>/a/:x\<close> without a parameter object.\<close>

theorem builder_validation_witness:
  "(\<exists>msg. toPath ''/a/:x'' (literal Map.empty) = Inl (TypeError msg))
   \<and> (\<exists>msg. toPath ''/a/:x'' (literal [''x'' \<mapsto> VArr [''1'']]) = Inl (TypeError msg))
   \<and> (\<exists>msg. toPath ''/a/:x(1+)'' (literal [''x'' \<mapsto> VStr ''2'']) = Inl (TypeError msg))
   \<and> (\<exists>f msg. compile ''/a/:x'' = Inr f \<and> f None = Inl (TypeError msg))"
proof -
  let ?k = "\<lparr>name = Named ''x'', prefix = ''/'', delimiter = ''/'', optional = False, repeat = False,
             pattern = [CHR ''['', CHR ''^'', bs, CHR ''/'', CHR '']'', CHR ''+'', CHR ''?'']\<rparr>"
  let ?k1 = "\<lparr>name = Named ''x'', prefix = ''/'', delimiter = ''/'', optional = False, repeat = False,
             pattern = ''1+''\<rparr>"
  have p: "parse ''/a/:x'' = [Str ''/a'', Key ?k]" by code_simp
  have p1: "parse ''/a/:x(1+)'' = [Str ''/a'', Key ?k1]" by code_simp
  have "case tokensToFunction [Str ''/a'', Key ?k] of Inl e \<Rightarrow> False | Inr f \<Rightarrow> True" by code_simp
  then obtain f where f: "tokensToFunction [Str ''/a'', Key ?k] = Inr f"
    by (cases "tokensToFunction [Str ''/a'', Key ?k]") auto
  have "case tokensToFunction [Str ''/a'', Key ?k1] of Inl e \<Rightarrow> False | Inr f \<Rightarrow> True" by code_simp
  then obtain f1 where f1: "tokensToFunction [Str ''/a'', Key ?k1] = Inr f1"
    by (cases "tokensToFunction [Str ''/a'', Key ?k1]") auto
  have n: "nameString (name ?k) = ''x''" "nameString (name ?k1) = ''x''" by (simp_all add: nameString_def)
  have v0: "getProp (literal Map.empty) ''x'' = VNull" by code_simp
  have v1: "getProp (literal [''x'' \<mapsto> VArr [''1'']]) ''x'' = VArr [''1'']" by code_simp
  have v2: "getProp (literal [''x'' \<mapsto> VStr ''2'']) ''x'' = VStr ''2''" by code_simp
  have re: "case newRegExp (''^'' @ pattern ?k1 @ ''$'') False of Inl e \<Rightarrow> False
            | Inr re \<Rightarrow> \<not> test re (encodeURIComponent ''2'')"
    by code_simp
  then obtain re1 where re1: "newRegExp (''^'' @ pattern ?k1 @ ''$'') False = Inr re1"
      "\<not> test re1 (encodeURIComponent ''2'')"
    by (cases "newRegExp (''^'' @ pattern ?k1 @ ''$'') False") auto
  note t = builder_validation[THEN conjunct2, THEN conjunct2, THEN conjunct2, THEN conjunct2]
  note g = t[THEN conjunct2, rule_format]
  have m: "Key ?k \<in> set [Str ''/a'', Key ?k]" "Key ?k1 \<in> set [Str ''/a'', Key ?k1]" by simp_all
  have a: "\<exists>msg. f (Some (literal Map.empty)) = Inl (TypeError msg)"
    using g[OF conjI[OF f m(1)], of "literal Map.empty"] n v0 by simp
  have b: "\<exists>msg. f (Some (literal [''x'' \<mapsto> VArr [''1'']])) = Inl (TypeError msg)"
    using g[OF conjI[OF f m(1)], of "literal [''x'' \<mapsto> VArr [''1'']]"] n v1 by simp
  have c: "\<exists>msg. f1 (Some (literal [''x'' \<mapsto> VStr ''2''])) = Inl (TypeError msg)"
    using g[OF conjI[OF f1 m(2)], of "literal [''x'' \<mapsto> VStr ''2'']"] n v2 re1 by auto
  from t[THEN conjunct1, rule_format, OF f] a have d: "\<exists>msg. f None = Inl (TypeError msg)" by simp
  from a b c d show ?thesis by (simp add: toPath_def compile_def p p1 f f1)
qed

text \<open>The claim as it was stated fails where it says that a value that is not an array
  makes the builder of a repeating token throw.\<close>

theorem builder_single_value_for_repeat:
  "toPath ''/a/:x+'' (literal [''x'' \<mapsto> VStr ''1'']) = Inr ''/a/1''"
  by code_simp


section \<open>Properties of the numbers\<close>

lemma log2_bounds: "0 < n \<Longrightarrow> 2 ^ log2 n \<le> n \<and> n < 2 ^ Suc (log2 n)"
proof (induction n rule: log2.induct)
  case (1 n)
  show ?case
  proof (cases "n < 2")
    case True
    with 1(2) show ?thesis by (simp add: log2.simps[of n])
  next
    case False
    then have "0 < n div 2" by simp
    from 1(1)[OF False this] have "2 ^ log2 (n div 2) \<le> n div 2" "n div 2 < 2 ^ Suc (log2 (n div 2))"
      by simp_all
    with False show ?thesis by (simp add: log2.simps[of n]) linarith
  qed
qed

lemma log2_eq: "2 ^ k \<le> n \<Longrightarrow> n < 2 ^ Suc k \<Longrightarrow> log2 n = k"
proof -
  assume a: "2 ^ k \<le> n" "n < 2 ^ Suc k"
  then have "0 < n" by (cases n) auto
  from log2_bounds[OF this] have b: "2 ^ log2 n \<le> n" "n < 2 ^ Suc (log2 n)" by simp_all
  from b(1) a(2) have "(2::nat) ^ log2 n < 2 ^ Suc k" by (rule le_less_trans)
  from power_less_imp_less_exp[OF _ this] have 1: "log2 n < Suc k" by simp
  from a(1) b(2) have "(2::nat) ^ k < 2 ^ Suc (log2 n)" by (rule le_less_trans)
  from power_less_imp_less_exp[OF _ this] have 2: "k < Suc (log2 n)" by simp
  from 1 2 show ?thesis by simp
qed

text \<open>Every integer up to \<open>2\<^sup>5\<^sup>3\<close> in absolute value is a double.\<close>

lemma roundDouble_int:
  assumes "\<bar>k\<bar> \<le> 2 ^ 53"
  shows "roundDouble (of_int k) = Finite (of_int k)"
proof (cases "k = 0")
  case True
  then show ?thesis by (simp add: roundDouble_def)
next
  case False
  define n0 where "n0 = nat \<bar>k\<bar>"
  define a :: rat where "a = \<bar>of_int k\<bar>"
  define e where "e = log2 n0"
  from False have n0: "0 < n0" by (simp add: n0_def)
  have a: "a = of_nat n0" by (simp add: a_def n0_def)
  from n0 a have a1: "1 \<le> a" by simp
  have fl: "nat \<lfloor>a\<rfloor> = n0" by (simp add: a)
  from a1 fl have ex: "exponent a = int e" by (simp add: exponent_def e_def)
  from log2_bounds[OF n0] have b: "2 ^ e \<le> n0" by (simp add: e_def)
  from assms have n53: "n0 \<le> 2 ^ 53" by (simp add: n0_def)
  from b n53 have "(2::nat) ^ e \<le> 2 ^ 53" by (rule order_trans)
  have e53: "e \<le> 53"
  proof (rule ccontr)
    assume "\<not> e \<le> 53"
    then have "54 \<le> e" by simp
    then have "(2::nat) ^ 54 \<le> 2 ^ e" by (rule power_increasing) simp
    with \<open>(2::nat) ^ e \<le> 2 ^ 53\<close> show False by simp
  qed
  define ulp where "ulp = pow2 (int e - 52)"
  have ulp0: "ulp \<noteq> 0" by (simp add: ulp_def pow2_def)
  have "\<exists>j::int. a / ulp = of_int j"
  proof (cases "e \<le> 52")
    case True
    have "ulp = 1 / 2 ^ (52 - e)"
    proof (cases "e = 52")
      case True
      then show ?thesis by (simp add: ulp_def pow2_def)
    next
      case False
      with True have "e < 52" by simp
      then have "nat (52 - int e) = 52 - e" by simp
      with \<open>e < 52\<close> show ?thesis by (simp add: ulp_def pow2_def)
    qed
    then have "a / ulp = of_int (int n0 * 2 ^ (52 - e))" by (simp add: a)
    then show ?thesis by blast
  next
    case False
    with e53 have e: "e = 53" by simp
    with b n53 have "n0 = 2 ^ 53" by simp
    moreover from e have "ulp = 2" by (simp add: ulp_def pow2_def)
    ultimately have "a / ulp = of_int (2 ^ 52)" by (simp add: a)
    then show ?thesis by blast
  qed
  then obtain j :: int where j: "a / ulp = of_int j" by blast
  from j ulp0 have y: "of_int j * ulp = a" by (simp add: field_simps)
  have "(of_nat n0 :: rat) \<le> of_nat (2 ^ 53)" using n53 by (simp only: of_nat_le_iff)
  then have "a \<le> 2 ^ 53" by (simp add: a)
  also have "\<dots> < (2::rat) ^ 1024" by (rule power_strict_increasing) simp_all
  finally have "a < 2 ^ 1024" .
  moreover have "pow2 1024 = 2 ^ 1024" by (simp add: pow2_def)
  ultimately have lt: "\<not> pow2 1024 \<le> a" by (simp only: not_le)
  have m: "max (int e) (- 1022) = int e" by simp
  have x0: "of_int k \<noteq> (0::rat)" using False by simp
  have sg: "(if 0 < (of_int k :: rat) then a else - a) = of_int k" by (simp add: a_def)
  show ?thesis
    unfolding roundDouble_def Let_def a_def[symmetric] ex m ulp_def[symmetric] j
    using x0 y lt sg by (simp split: if_splits)
qed


lemma decrement_int:
  "- (2 ^ 53) < k \<Longrightarrow> k \<le> 2 ^ 53 \<Longrightarrow> decrement (Finite (of_int k)) = Finite (of_int (k - 1))"
  using roundDouble_int[of "k - 1"] by (simp add: decrement_def)

text \<open>Beyond \<open>2\<^sup>5\<^sup>3\<close> the doubles are two apart and more: \<open>2\<^sup>5\<^sup>3 + 1\<close> is the middle of two
  doubles and rounds to the even one, \<open>2\<^sup>5\<^sup>3\<close>.\<close>

lemma exponent_above: "exponent 9007199254740993 = 53"
proof -
  have "log2 9007199254740993 = 53" by (rule log2_eq) simp_all
  then show ?thesis by (simp add: exponent_def)
qed

lemma floor_above: "\<lfloor>(9007199254740993::rat) / 2\<rfloor> = 4503599627370496"
  by (rule floor_unique) simp_all

lemma roundDouble_above: "roundDouble 9007199254740993 = Finite 9007199254740992"
  by (simp add: roundDouble_def Let_def exponent_above floor_above pow2_def)

section \<open>Properties of the controller\<close>


lemma engine_Show_cmd:
  "engine (Suc (Suc n)) rt (TRun e (Do (Show p st dsp psh) (\<lambda>w. Done))) m =
     (case engine (Suc n) rt (TShow p st dsp psh) m of
        None \<Rightarrow> None
      | Some (Raise err m') \<Rightarrow> Some (Raise err m')
      | Some (Ok r m') \<Rightarrow> Some (Ok None m'))"
  by (simp add: runScript_def command_def split: option.splits outcome.splits)

lemma getBase_truncate [simp]: "getBase (world.truncate m) = getBase m"
  by (simp add: getBase_def world.truncate_def)

lemma getBase_timers [simp]: "getBase (m\<lparr>timers := x\<rparr>) = getBase m"
  by (simp add: getBase_def)

text \<open>The path that \<open>back\<close> falls back to in the state \<open>w\<close>: the path it was given, or,
  when none or the empty one was given, the base path of the controller.\<close>

definition fallback :: "string option \<Rightarrow> 'a world_scheme \<Rightarrow> string" where
  "fallback p w =
     (case p of
        Some x \<Rightarrow> if x \<noteq> [] then x
                  else if pBase w \<noteq> [] then pBase w
                  else if pHashbang w \<and> locProtocol w = ''file:'' then locPathname w
                  else []
      | None \<Rightarrow> if pBase w \<noteq> [] then pBase w
                else if pHashbang w \<and> locProtocol w = ''file:'' then locPathname w
                else [])"

lemma fallback_getBase:
  "fallback p w = (case p of None \<Rightarrow> getBase w | Some x \<Rightarrow> if x = [] then getBase w else x)"
  by (simp add: fallback_def getBase_def split: option.splits)

lemma fallback_truncate [simp]: "fallback p (world.truncate m) = fallback p m"
  by (simp add: fallback_getBase split: option.splits)

text \<open>
  Claim C8, as amended. In every state whose \<open>len\<close> is an integer with \<open>0 < len \<le> 2\<^sup>5\<^sup>3\<close>,
  \<open>back(path, state)\<close> decrements \<open>len\<close> by exactly one and calls the history's own
  back-navigation; it schedules nothing and creates no context, so the fallback path is
  never shown. In every state where \<open>len > 0\<close> does not hold (\<open>len \<le> 0\<close>, or \<open>len\<close> is
  \<open>NaN\<close>) it only appends a zero-delay timer; the timer shows the fallback path, or the
  base path (the configured base, or the pathname of the window for a hashbang controller
  on a \<open>file:\<close> address; read when the timer fires) when no fallback, or an empty one, was
  given: fired on a state with no other timer pending, it does what \<open>show\<close> of that path and
  state does.
\<close>

theorem back_counter_or_fallback:
  "(\<forall>k. len m = Finite (of_int k) \<and> 0 < k \<and> k \<le> 2 ^ 53 \<longrightarrow>
      back' p st m = m\<lparr>history := history m @ [GoBack], len := Finite (of_int (k - 1))\<rparr>
      \<and> timers (back' p st m) = timers m \<and> ctxs (back' p st m) = ctxs m
      \<and> current (back' p st m) = current m)
   \<and> (\<not> positive (len m) \<longrightarrow>
        (\<exists>f. back' p st m = m\<lparr>timers := timers m @ [(None, f)]\<rparr>
             \<and> (\<forall>w. f w = Do (Show (fallback p w) st None None) (\<lambda>w'. Done)))
        \<and> (timers m = [] \<longrightarrow>
             fire (Suc (Suc n)) rt (back' p st m) =
               (case engine (Suc n) rt (TShow (fallback p m) st None None) m of
                  None \<Rightarrow> None
                | Some (Raise err m') \<Rightarrow> Some (Raise err m')
                | Some (Ok r m') \<Rightarrow> Some (Ok None m'))))"
proof (intro conjI impI allI)
  fix k
  assume a: "len m = Finite (of_int k) \<and> 0 < k \<and> k \<le> 2 ^ 53"
  then have pos: "positive (len m)" by (simp add: positive_def)
  from a have dec: "decrement (len m) = Finite (of_int (k - 1))" by (simp add: decrement_int)
  from pos dec show "back' p st m = m\<lparr>history := history m @ [GoBack], len := Finite (of_int (k - 1))\<rparr>"
    by (simp add: back'_def)
  from pos show "timers (back' p st m) = timers m" by (simp add: back'_def)
  from pos show "ctxs (back' p st m) = ctxs m" by (simp add: back'_def)
  from pos show "current (back' p st m) = current m" by (simp add: back'_def)
next
  assume le: "\<not> positive (len m)"
  show "\<exists>f. back' p st m = m\<lparr>timers := timers m @ [(None, f)]\<rparr>
             \<and> (\<forall>w. f w = Do (Show (fallback p w) st None None) (\<lambda>w'. Done))"
  proof (cases "truthy p")
    case True
    then obtain x where "p = Some x" "x \<noteq> []" by (cases p) (auto simp: truthy_def)
    with le True show ?thesis by (auto simp: back'_def orElse_def fallback_def)
  next
    case False
    then have "p = None \<or> p = Some []" by (cases p) (auto simp: truthy_def)
    with le False show ?thesis by (auto simp: back'_def fallback_getBase)
  qed
next
  assume le: "\<not> positive (len m)" and t: "timers m = []"
  have m: "m\<lparr>timers := []\<rparr> = m" using t by simp
  have f: "fire (Suc (Suc n)) rt (back' p st m) =
           engine (Suc (Suc n)) rt (TRun None (Do (Show (fallback p m) st None None) (\<lambda>w. Done))) m"
  proof (cases "truthy p")
    case True
    then obtain x where "p = Some x" "x \<noteq> []" by (cases p) (auto simp: truthy_def)
    with le True t show ?thesis
      by (simp add: back'_def orElse_def fire_def m fallback_def del: engine.simps)
  next
    case False
    then have "p = None \<or> p = Some []" by (cases p) (auto simp: truthy_def)
    with le False t show ?thesis
      by (auto simp add: back'_def fire_def m fallback_getBase simp del: engine.simps)
  qed
  show "fire (Suc (Suc n)) rt (back' p st m) =
          (case engine (Suc n) rt (TShow (fallback p m) st None None) m of
             None \<Rightarrow> None
           | Some (Raise err m') \<Rightarrow> Some (Raise err m')
           | Some (Ok r m') \<Rightarrow> Some (Ok None m'))"
    unfolding f by (rule engine_Show_cmd)
qed

text \<open>The witness: a controller with \<open>len = 2\<close>, and a controller with the base path
  \<open>/base\<close> and \<open>len = 0\<close>, whose timer makes a context for \<open>/base\<close>.\<close>

theorem back_counter_or_fallback_witness:
  "back' (Some ''/first'') None ((newPage ''/'')\<lparr>len := Finite 2\<rparr>)
     = (newPage ''/'')\<lparr>history := [GoBack], len := Finite 1\<rparr>
   \<and> (case fire (Suc (Suc (Suc (Suc 0)))) \<lparr>callbacks = [], exits = [], resolve = exampleWindow\<rparr>
              (back' None None ((newPage ''/'')\<lparr>pBase := ''/base''\<rparr>)) of
         Some (Ok r m') \<Rightarrow> map canonicalPath (ctxs m') = [''/base''] \<and> current m' = ''/''
       | _ \<Rightarrow> False)"
proof -
  let ?rt = "\<lparr>callbacks = [], exits = [], resolve = exampleWindow\<rparr>"
  let ?m = "(newPage ''/'')\<lparr>pBase := ''/base''\<rparr>"
  have a: "len ((newPage ''/'')\<lparr>len := Finite 2\<rparr>) = Finite (of_int 2) \<and> 0 < (2::int) \<and> (2::int) \<le> 2 ^ 53"
    by simp
  have b: "\<not> positive (len ?m)" by (simp add: newPage_def positive_def)
  have t: "timers ?m = []" by (simp add: newPage_def)
  note th = back_counter_or_fallback[of "(newPage ''/'')\<lparr>len := Finite 2\<rparr>" "Some ''/first''" None 0 ?rt]
  from th[THEN conjunct1, rule_format, OF a]
  have 1: "back' (Some ''/first'') None ((newPage ''/'')\<lparr>len := Finite 2\<rparr>)
          = (newPage ''/'')\<lparr>history := [GoBack], len := Finite 1\<rparr>"
    by (simp add: newPage_def)
  have fb: "fallback None ?m = ''/base''" by (simp add: fallback_def)
  have e: "case engine (Suc (Suc (Suc 0))) ?rt (TShow ''/base'' None None None) ?m of
             Some (Ok r m') \<Rightarrow> map canonicalPath (ctxs m') = [''/base''] \<and> current m' = ''/''
           | _ \<Rightarrow> False"
    by code_simp
  from back_counter_or_fallback[of ?m None None "Suc (Suc 0)" ?rt, THEN conjunct2, rule_format, OF b]
  have "fire (Suc (Suc (Suc (Suc 0)))) ?rt (back' None None ?m) =
               (case engine (Suc (Suc (Suc 0))) ?rt (TShow ''/base'' None None None) ?m of
                  None \<Rightarrow> None
                | Some (Raise err m') \<Rightarrow> Some (Raise err m')
                | Some (Ok r m') \<Rightarrow> Some (Ok None m'))"
    using t fb by simp
  with e have 2: "case fire (Suc (Suc (Suc (Suc 0)))) ?rt (back' None None ?m) of
         Some (Ok r m') \<Rightarrow> map canonicalPath (ctxs m') = [''/base''] \<and> current m' = ''/''
       | _ \<Rightarrow> False"
    by (simp split: option.splits outcome.splits)
  from 1 2 show ?thesis by simp
qed

text \<open>The claim as it was stated fails for a large counter: at \<open>len = 2\<^sup>5\<^sup>3 + 2\<close> the call
  goes back in the history and leaves \<open>len = 2\<^sup>5\<^sup>3\<close>, two less.\<close>

theorem back_large_counter:
  "positive (Finite (2 ^ 53 + 2))
   \<and> back' None None ((newPage ''/'')\<lparr>len := Finite (2 ^ 53 + 2)\<rparr>)
       = (newPage ''/'')\<lparr>history := [GoBack], len := Finite (2 ^ 53)\<rparr>"
  by (simp add: back'_def positive_def decrement_def roundDouble_above newPage_def)





text \<open>And from \<open>len = 2\<^sup>5\<^sup>3\<close> on the increment no longer adds one.\<close>

lemma increment_large: "increment (Finite (2 ^ 53)) = Finite (2 ^ 53)"
  by (simp add: increment_def roundDouble_above)


section \<open>Properties of the expressions made of escaped text\<close>









section \<open>Properties of decoding\<close>



lemma hexVal_percent [simp]: "hexVal (CHR ''%'') = None"
  by (simp add: hexVal_def code_def)








lemma hexVal_plus_space [simp]: "hexVal (CHR ''+'') = None" "hexVal (CHR '' '') = None"
  by (simp_all add: hexVal_def code_def)












text \<open>The part of a path before its query string, which \<open>match\<close> decodes and tests.\<close>

definition pathnameOf :: "string \<Rightarrow> string" where
  "pathnameOf p = (case indexOf p ''?'' of None \<Rightarrow> p | Some qsIndex \<Rightarrow> take qsIndex p)"







section \<open>Properties of \<open>Route.match\<close>\<close>


definition keyOf :: "token \<Rightarrow> string" where
  "keyOf k = nameString (name k)"

lemma assign_other: "k \<noteq> k' \<Longrightarrow> assign k' val ps k = ps k"
  by (simp add: assign_def)

lemma matchLoop_frame:
  "matchLoop ks dec vs ps = (ps', res) \<Longrightarrow> k \<notin> keyOf ` set ks \<Longrightarrow> ps' k = ps k"
proof (induction vs arbitrary: ks ps)
  case Nil
  then show ?case by simp
next
  case (Cons v vs)
  show ?case
  proof (cases "decodeURLEncodedURIComponent dec v")
    case (Inl e)
    with Cons.prems(1) show ?thesis by simp
  next
    case (Inr val)
    show ?thesis
    proof (cases ks)
      case Nil
      with Cons.prems(1) Inr show ?thesis by simp
    next
      case (Cons k0 ks')
      let ?w = "if val \<noteq> None then Inr True
                else (case hasOwnProperty ps (nameString (name k0)) of
                        Inl e \<Rightarrow> Inl e | Inr b \<Rightarrow> Inr (\<not> b))"
      show ?thesis
      proof (cases ?w)
        case (Inl e)
        with Cons.prems(1) Inr \<open>ks = k0 # ks'\<close> show ?thesis by simp
      next
        case w: (Inr wrt)
        let ?ps2 = "if wrt then assign (nameString (name k0)) val ps else ps"
        from Cons.prems(1) Inr \<open>ks = k0 # ks'\<close> w
        have ml: "matchLoop ks' dec vs ?ps2 = (ps', res)" by simp
        from Cons.prems(2) \<open>ks = k0 # ks'\<close> have n: "k \<notin> keyOf ` set ks'" "k \<noteq> nameString (name k0)"
          by (auto simp: keyOf_def)
        from Cons.IH[OF ml n(1)] have "ps' k = ?ps2 k" .
        with n(2) show ?thesis by (simp add: assign_other)
      qed
    qed
  qed
qed

lemma matchLoop_not_False: "matchLoop ks dec vs ps \<noteq> (ps', Inr False)"
proof (induction vs arbitrary: ks ps)
  case Nil
  then show ?case by simp
next
  case (Cons v vs)
  show ?case
    using Cons.IH
    by (auto split: sum.splits list.splits)
qed





text \<open>
  Claim C10, as amended. \<open>Route.match\<close> deletes the key \<open>0\<close> after it has decoded the
  pathname and run the expression on it, and before it looks at the result. So after every
  call that got past the decoding of the pathname, also one that returns false or that a
  later capture makes throw, the parameters have no own property \<open>0\<close> unless a key of this
  route is named \<open>0\<close>; a path that does not match returns false, and a call that returns
  false leaves every other key unchanged. A call whose pathname cannot be decoded throws
  before the deletion and leaves the parameters, the key \<open>0\<close> included, unchanged.
\<close>

theorem match_deletes_key_0:
  "(\<forall>decoded. decodeURIComponent (pathnameOf p) = Inr decoded \<and> match r dec p ps = (ps', res) \<longrightarrow>
       (''0'' \<notin> keyOf ` set (keys r) \<longrightarrow> ps' ''0'' = None)
     \<and> (exec (rregexp r) decoded = None \<longrightarrow> res = Inr False)
     \<and> (res = Inr False \<longrightarrow> ps' = ps(''0'' := None)))
   \<and> (\<forall>e. decodeURIComponent (pathnameOf p) = Inl e \<longrightarrow> match r dec p ps = (ps, Inl e))"
proof (intro conjI allI impI)
  fix decoded
  assume "decodeURIComponent (pathnameOf p) = Inr decoded \<and> match r dec p ps = (ps', res)"
  then have a1: "decodeURIComponent (pathnameOf p) = Inr decoded"
    and a2: "match r dec p ps = (ps', res)" by simp_all
  from a2 a1 have a: "(let m = exec (rregexp r) decoded; ps1 = ps(''0'' := None)
              in case m of None \<Rightarrow> (ps1, Inr False)
                 | Some found \<Rightarrow> matchLoop (keys r) dec (tl (entries found)) ps1) = (ps', res)"
    by (simp add: match_def pathnameOf_def)
  show "exec (rregexp r) decoded = None \<Longrightarrow> res = Inr False"
    using a by (auto simp: Let_def)
  show "ps' ''0'' = None" if n: "''0'' \<notin> keyOf ` set (keys r)"
  proof (cases "exec (rregexp r) decoded")
    case None
    with a show ?thesis by (auto simp: Let_def)
  next
    case (Some found)
    with a have "matchLoop (keys r) dec (tl (entries found)) (ps(''0'' := None)) = (ps', res)"
      by (simp add: Let_def)
    from matchLoop_frame[OF this n] show ?thesis by simp
  qed
  show "ps' = ps(''0'' := None)" if f: "res = Inr False"
  proof (cases "exec (rregexp r) decoded")
    case None
    with a show ?thesis by (auto simp: Let_def)
  next
    case (Some found)
    with a f have "matchLoop (keys r) dec (tl (entries found)) (ps(''0'' := None)) = (ps', Inr False)"
      by (simp add: Let_def)
    with matchLoop_not_False show ?thesis by blast
  qed
next
  fix e assume "decodeURIComponent (pathnameOf p) = Inl e"
  then show "match r dec p ps = (ps, Inl e)" by (simp add: match_def pathnameOf_def Let_def)
qed


theorem match_deletes_key_0_witness:
  "\<exists>r. newRoute ''/a'' None False = Inr r
       \<and> match r True ''/b'' [''0'' \<mapsto> Some ''x'', ''k'' \<mapsto> Some ''y'']
           = ([''0'' \<mapsto> Some ''x'', ''k'' \<mapsto> Some ''y''](''0'' := None), Inr False)"
proof -
  let ?ps = "[''0'' \<mapsto> Some ''x'', ''k'' \<mapsto> Some ''y'']"
  have "case newRoute ''/a'' None False of
          Inl e \<Rightarrow> False
        | Inr r \<Rightarrow> snd (match r True ''/b'' ?ps) = Inr False"
    by code_simp
  then obtain r where r: "newRoute ''/a'' None False = Inr r"
    and "snd (match r True ''/b'' ?ps) = Inr False"
    by (cases "newRoute ''/a'' None False") auto
  then obtain ps' where m: "match r True ''/b'' ?ps = (ps', Inr False)"
    by (cases "match r True ''/b'' ?ps") auto
  have d: "decodeURIComponent (pathnameOf ''/b'') = Inr ''/b''" by code_simp
  from match_deletes_key_0[THEN conjunct1, rule_format, OF conjI[OF d m]]
  have "ps' = ?ps(''0'' := None)" by blast
  with r m show ?thesis by blast
qed

text \<open>The claim as it was stated fails on a pathname that cannot be decoded: the call
  throws and the key \<open>0\<close> is still there.\<close>

theorem match_keeps_key_0_when_decoding_throws:
  "case newRoute ''/a'' None False of
     Inl e \<Rightarrow> False
   | Inr r \<Rightarrow>
       (case match r True ''/%'' [''0'' \<mapsto> Some ''x''] of
          (ps', res) \<Rightarrow> res = Inl URIError \<and> ps' ''0'' = Some (Some ''x''))"
  by code_simp


section \<open>Properties of the dispatch engine\<close>

text \<open>The state a call leaves, whether it returns or throws.\<close>

definition after :: "outcome \<Rightarrow> machine" where
  "after out = (case out of Ok r m \<Rightarrow> m | Raise err m \<Rightarrow> m)"

lemma after_simps [simp]: "after (Ok r m) = m" "after (Raise err m) = m"
  by (simp_all add: after_def)






lemma trace_setHandled [simp]: "trace (setHandled c b m) = trace m"
  by (simp add: setHandled_def)

lemma trace_stop [simp]: "trace (stop m) = trace m"
  by (simp add: stop_def)

lemma trace_unhandled [simp]: "trace (unhandled c m) = trace m"
  by (simp add: unhandled_def Let_def)

lemma trace_back [simp]: "trace (back' p st m) = trace m"
  by (simp add: back'_def)

lemma trace_locate [simp]: "trace (locate rt url m) = trace m"
  by (simp add: locate_def split: prod.splits)

lemma trace_pushState [simp]: "trace (pushState rt c m) = trace m"
  by (simp add: pushState_def Let_def)

lemma trace_save [simp]: "trace (save rt c m) = trace m"
  by (simp add: save_def Let_def)





















text \<open>The example: two handlers are registered for \<open>/a\<close>, the first shows \<open>/c\<close> and then
  calls its continuation; no route matches \<open>/c\<close>. \<open>navigating\<close> is the state in which
  \<open>show('/a')\<close> on a new controller calls \<open>dispatch\<close>.\<close>

definition routeA :: route where
  "routeA =
     \<lparr>rpath = ''/a'',
      rregexp = \<lparr>source = [CHR ''^'', bs] @ ''/a(?:'' @ [bs] @ ''/(?=$))?$'', ignoreCase = True,
                 tree = Seq Bol (Seq (Chr (CHR ''/'')) (Seq (Chr (CHR ''a''))
                          (Seq (Opt True (Seq (Chr (CHR ''/'')) (Look True Eol))) Eol))),
                 groups = 0\<rparr>,
      keys = []\<rparr>"

definition contextA :: Context where
  "contextA =
     \<lparr>init = None, handled = None, canonicalPath = ''/a'', path = ''/a'', title = [],
      state = [(''path'', ''/a'')], querystring = [], pathname = ''/a'', params = Map.empty,
      hash = []\<rparr>"

definition redirecting :: handler where
  "redirecting w c = Do (Show ''/c'' None None None) (\<lambda>w. Do Next (\<lambda>w. Done))"

definition later :: handler where
  "later w c = Do (SetHandled True) (\<lambda>w. Done)"

definition exampleRouter :: router where
  "exampleRouter =
     \<lparr>callbacks = [(routeA, redirecting), (routeA, later)], exits = [], resolve = exampleWindow\<rparr>"

definition navigating :: machine where
  "navigating = (newPage ''/'')\<lparr>ctxs := [contextA], prevContext := Some 0, current := ''/a''\<rparr>"

lemma routeA_made: "newRoute ''/a'' None False = Inr routeA"
  by code_simp

lemma newContext_params: "newContext p st w = Inr ctx \<Longrightarrow> params ctx = Map.empty"
  unfolding newContext_def Let_def
  by (auto split: sum.splits if_splits option.splits)

lemma contextA_made: "newContext ''/a'' None (newPage ''/'') = Inr contextA"
proof -
  have "case newContext ''/a'' None (newPage ''/'') of
          Inl e \<Rightarrow> False
        | Inr ctx \<Rightarrow> init ctx = None \<and> handled ctx = None \<and> canonicalPath ctx = ''/a''
                      \<and> path ctx = ''/a'' \<and> title ctx = [] \<and> state ctx = [(''path'', ''/a'')]
                      \<and> querystring ctx = [] \<and> pathname ctx = ''/a'' \<and> hash ctx = []"
    by code_simp
  then obtain ctx where c: "newContext ''/a'' None (newPage ''/'') = Inr ctx"
    and f: "init ctx = None" "handled ctx = None" "canonicalPath ctx = ''/a''"
      "path ctx = ''/a''" "title ctx = []" "state ctx = [(''path'', ''/a'')]"
      "querystring ctx = []" "pathname ctx = ''/a''" "hash ctx = []"
    by (cases "newContext ''/a'' None (newPage ''/'')") auto
  from newContext_params[OF c] f have "ctx = contextA" by (simp add: contextA_def)
  with c show ?thesis by simp
qed

lemma show_navigating:
  "engine (Suc n) exampleRouter (TShow ''/a'' None None None) (newPage ''/'')
     = (case engine n exampleRouter (TDispatch 0 None) navigating of
          None \<Rightarrow> None
        | Some (Raise err m2) \<Rightarrow> Some (Raise err m2)
        | Some (Ok r m2) \<Rightarrow>
            Some (Ok (Some 0) (if handled (ctxs m2 ! 0) \<noteq> Some False
                               then pushState exampleRouter 0 m2 else m2)))"
proof -
  have "engine (Suc n) exampleRouter (TShow ''/a'' None None None) (newPage ''/'')
          = show' (engine n exampleRouter) exampleRouter ''/a'' None None None (newPage ''/'')"
    by simp
  also have "\<dots> = (case engine n exampleRouter (TDispatch 0 None) navigating of
          None \<Rightarrow> None
        | Some (Raise err m2) \<Rightarrow> Some (Raise err m2)
        | Some (Ok r m2) \<Rightarrow>
            Some (Ok (Some 0) (if handled (ctxs m2 ! 0) \<noteq> Some False
                               then pushState exampleRouter 0 m2 else m2)))"
    unfolding show'_def contextA_made
    by (simp add: Let_def navigating_def newPage_def contextA_def split: option.splits outcome.splits)
  finally show ?thesis .
qed




text \<open>The claim as it was stated fails where a navigation made by the handler is followed by
  one back to the path of its context: the first handler of \<open>/a\<close> shows \<open>/c\<close>, the handler
  of \<open>/c\<close> shows \<open>/a\<close> without dispatch, and the continuation of the first handler then
  runs the second handler of \<open>/a\<close>, which is invocation \<open>1\<close> of dispatch \<open>0\<close>.\<close>

definition routeC :: route where
  "routeC =
     \<lparr>rpath = ''/c'',
      rregexp = \<lparr>source = [CHR ''^'', bs] @ ''/c(?:'' @ [bs] @ ''/(?=$))?$'', ignoreCase = True,
                 tree = Seq Bol (Seq (Chr (CHR ''/'')) (Seq (Chr (CHR ''c''))
                          (Seq (Opt True (Seq (Chr (CHR ''/'')) (Look True Eol))) Eol))),
                 groups = 0\<rparr>,
      keys = []\<rparr>"

lemma routeC_made: "newRoute ''/c'' None False = Inr routeC"
  by code_simp



end
